theory Spec2Isabelle
  imports Complex_Main
begin

section \<open>Data types conversion: \<^verbatim>\<open>solve\<close> of \<^verbatim>\<open>02-data-types-conversion/solution.py\<close>\<close>

text \<open>
  The program reads five lines with \<^verbatim>\<open>input()\<close>, converts them with the built-ins
  \<^verbatim>\<open>int\<close>, \<^verbatim>\<open>float\<close>, \<^verbatim>\<open>str\<close>, \<^verbatim>\<open>bool\<close>, \<^verbatim>\<open>str.strip\<close> and \<^verbatim>\<open>str.lower\<close>, and prints nine
  lines. The built-ins are modelled as CPython 3 defines them on an IEEE-754 binary64
  host (\<^verbatim>\<open>sys.float_repr_style == 'short'\<close>):
  \<^item> a \<^verbatim>\<open>str\<close> is a \<^typ>\<open>string\<close>; a \<^typ>\<open>char\<close> stands for the code point of the same number,
    so the model covers the texts whose code points are below 256;
  \<^item> an \<^verbatim>\<open>int\<close> is an unbounded \<^typ>\<open>int\<close>; the interpreter's limit on the number of digits
    of a decimal literal (\<^verbatim>\<open>sys.get_int_max_str_digits()\<close>, set from the environment variable
    \<^verbatim>\<open>PYTHONINTMAXSTRDIGITS\<close>) is part of the world state;
  \<^item> a \<^verbatim>\<open>float\<close> is a binary64 value: sign, 53-bit significand and exponent, or an
    infinity, or NaN, with all arithmetic on exact integers;
  \<^item> an exception is a value of \<open>py_error\<close>, and the standard streams are fields of
    an explicit world state.
\<close>

subsection \<open>Text: whitespace, case, decimal digits\<close>

datatype py_error = EOFError | ValueError | OverflowError

text \<open>\<^verbatim>\<open>str.isspace\<close> on code points below 256: what \<^verbatim>\<open>str.strip()\<close> removes.\<close>

definition isspace :: "char \<Rightarrow> bool" where
  "isspace c = (c \<in> set [CHR 0x09, CHR 0x0A, CHR 0x0B, CHR 0x0C, CHR 0x0D,
                          CHR 0x1C, CHR 0x1D, CHR 0x1E, CHR 0x1F, CHR 0x20,
                          CHR 0x85, CHR 0xA0])"

text \<open>
  The whitespace that \<^verbatim>\<open>int(s)\<close> and \<^verbatim>\<open>float(s)\<close> skip around a literal: the C-level
  \<^verbatim>\<open>Py_ISSPACE\<close> set, and the two non-ASCII spaces, which the built-ins first rewrite to
  a blank. The separators 0x1C..0x1F are not in it.
\<close>

definition num_isspace :: "char \<Rightarrow> bool" where
  "num_isspace c = (c \<in> set [CHR 0x09, CHR 0x0A, CHR 0x0B, CHR 0x0C, CHR 0x0D, CHR 0x20,
                              CHR 0x85, CHR 0xA0])"

definition strip_with :: "(char \<Rightarrow> bool) \<Rightarrow> string \<Rightarrow> string" where
  "strip_with P s = rev (dropWhile P (rev (dropWhile P s)))"

definition strip :: "string \<Rightarrow> string" where
  "strip s = strip_with isspace s"

text \<open>\<^verbatim>\<open>str.lower\<close>: A..Z and the upper-case letters 0xC0..0xDE (without 0xD7) move by 32.\<close>

definition lower_char :: "char \<Rightarrow> char" where
  "lower_char c =
     (let n = (of_char c :: nat)
      in if (65 \<le> n \<and> n \<le> 90) \<or> (192 \<le> n \<and> n \<le> 222 \<and> n \<noteq> 215)
         then char_of (n + 32) else c)"

definition lower :: "string \<Rightarrow> string" where
  "lower s = map lower_char s"

definition isdigit :: "char \<Rightarrow> bool" where
  "isdigit c = (c \<in> set ''0123456789'')"

definition digit_value :: "char \<Rightarrow> nat" where
  "digit_value c = of_char c - 48"

definition digit_char :: "nat \<Rightarrow> char" where
  "digit_char d = char_of (48 + d)"

text \<open>The value of a string of decimal digits, most significant digit first.\<close>

definition digits_value :: "string \<Rightarrow> nat" where
  "digits_value ds = foldl (\<lambda>acc c. 10 * acc + digit_value c) 0 ds"

text \<open>
  Underscores in a numeric literal. The scan of the interpreter keeps the previous
  character: an underscore must follow a digit and must be followed by a digit, and
  the literal does not end in one. The result is the text without its underscores.
\<close>

fun del_underscores :: "char \<Rightarrow> string \<Rightarrow> string option" where
  "del_underscores prev [] = (if prev = CHR ''_'' then None else Some [])"
| "del_underscores prev (c # cs) =
     (if c = CHR ''_''
      then (if isdigit prev then del_underscores c cs else None)
      else if prev = CHR ''_'' \<and> \<not> isdigit c then None
      else map_option ((#) c) (del_underscores c cs))"

text \<open>An optional sign in front of a literal: whether it is negative, and the rest.\<close>

definition split_sign :: "string \<Rightarrow> bool \<times> string" where
  "split_sign t =
     (case t of
        [] \<Rightarrow> (False, [])
      | c # cs \<Rightarrow>
          if c = CHR ''-'' then (True, cs)
          else if c = CHR ''+'' then (False, cs)
          else (False, t))"

subsection \<open>\<^verbatim>\<open>int(s)\<close> and \<^verbatim>\<open>str(n)\<close>\<close>

text \<open>
  The interpreter refuses to convert a literal of \<open>k\<close> digits when \<open>k\<close> is above both the
  fixed threshold 640 and the limit \<open>dmax\<close> in force; the limit 0 stands for no limit. The
  default limit is 4300, and a limit that is not 0 is at least 640. Leading zeros count.
\<close>

definition exceeds_limit :: "nat \<Rightarrow> nat \<Rightarrow> bool" where
  "exceeds_limit dmax k = (640 < k \<and> 0 < dmax \<and> dmax < k)"

text \<open>
  \<^verbatim>\<open>int(s)\<close> in base 10 under the limit \<open>dmax\<close>: surrounding whitespace, an optional sign,
  then decimal digits with single underscores between them, no more digits than the
  limit allows. Anything else raises \<^verbatim>\<open>ValueError\<close>.
\<close>

definition int_of_str :: "nat \<Rightarrow> string \<Rightarrow> py_error + int" where
  "int_of_str dmax s =
     (let (neg, body) = split_sign (strip_with num_isspace s)
      in case del_underscores (CHR 0x00) body of
           None \<Rightarrow> Inl ValueError
         | Some ds \<Rightarrow>
             if ds = [] \<or> \<not> list_all isdigit ds then Inl ValueError
             else if exceeds_limit dmax (length ds) then Inl ValueError
             else Inr (if neg then - int (digits_value ds) else int (digits_value ds)))"

text \<open>
  \<^verbatim>\<open>str(n)\<close> is under the same limit. In this program it cannot be reached: an int that
  is printed was read from a literal of no more digits than the limit allows, or is the
  integral part of a float and has at most 309 digits.
\<close>

fun str_of_nat :: "nat \<Rightarrow> string" where
  "str_of_nat n =
     (if n < 10 then [digit_char n] else str_of_nat (n div 10) @ [digit_char (n mod 10)])"

declare str_of_nat.simps [simp del]

definition str_of_int :: "int \<Rightarrow> string" where
  "str_of_int i = (if i < 0 then CHR ''-'' # str_of_nat (nat (- i)) else str_of_nat (nat i))"

definition str_of_bool :: "bool \<Rightarrow> string" where
  "str_of_bool b = (if b then ''True'' else ''False'')"

definition bool_of_int :: "int \<Rightarrow> bool" where
  "bool_of_int n = (n \<noteq> 0)"

subsection \<open>Binary64 floating point\<close>

text \<open>
  \<open>Finite s m e\<close> is the number \<open>(-1)\<^sup>s * m * 2\<^sup>e\<close>. The values that arise are in IEEE
  form: \<open>2\<^sup>5\<^sup>2 \<le> m < 2\<^sup>5\<^sup>3\<close> and \<open>-1074 \<le> e \<le> 971\<close> (normal), or \<open>m < 2\<^sup>5\<^sup>2\<close> and
  \<open>e = -1074\<close> (subnormal and zero).
\<close>

datatype pyfloat = Finite bool nat int | Infinite bool | NaN

fun bit_length :: "nat \<Rightarrow> nat" where
  "bit_length n = (if n = 0 then 0 else Suc (bit_length (n div 2)))"

declare bit_length.simps [simp del]

text \<open>The fraction \<open>n / d\<close> rounded to the nearest natural number, ties to even.\<close>

definition round_half_even :: "nat \<Rightarrow> nat \<Rightarrow> nat" where
  "round_half_even n d =
     (let f = n div d; r = n mod d
      in if 2 * r < d then f
         else if d < 2 * r then f + 1
         else if even f then f else f + 1)"

text \<open>\<open>scale b p q e\<close> is the fraction \<open>p / (q * b\<^sup>e)\<close>, as numerator and denominator.\<close>

definition scale :: "nat \<Rightarrow> nat \<Rightarrow> nat \<Rightarrow> int \<Rightarrow> nat \<times> nat" where
  "scale b p q e = (if 0 \<le> e then (p, q * b ^ nat e) else (p * b ^ nat (- e), q))"

text \<open>
  The binary64 value nearest to \<open>(-1)\<^sup>s * p / q\<close> (round to nearest, ties to even), as
  the correctly rounded conversions of the interpreter give it. The exponent \<open>e1\<close> is
  \<open>max (-1074) (\<lfloor>log\<^sub>2 (p / q)\<rfloor> - 52)\<close>; a magnitude that rounds up to \<open>2\<^sup>1\<^sup>0\<^sup>2\<^sup>4\<close> is infinite.
\<close>

definition round_to_double :: "bool \<Rightarrow> nat \<Rightarrow> nat \<Rightarrow> pyfloat" where
  "round_to_double s p q =
     (if p = 0 then Finite s 0 (- 1074)
      else
        let e0 = max (- 1074) (int (bit_length p) - int (bit_length q) - 53);
            (n0, d0) = scale 2 p q e0;
            e1 = (if 2 ^ 53 * d0 \<le> n0 then e0 + 1 else e0);
            (n1, d1) = scale 2 p q e1;
            m = round_half_even n1 d1;
            (m', e') = (if m = 2 ^ 53 then (2 ^ 52, e1 + 1) else (m, e1))
        in if 971 < e' then Infinite s else Finite s m' e')"

text \<open>The decimal number \<open>(-1)\<^sup>s * d * 10\<^sup>k\<close> as a binary64 value.\<close>

definition double_of_decimal :: "bool \<Rightarrow> nat \<Rightarrow> int \<Rightarrow> pyfloat" where
  "double_of_decimal s d k =
     (if 0 \<le> k then round_to_double s (d * 10 ^ nat k) 1
      else round_to_double s d (10 ^ nat (- k)))"

subsection \<open>\<^verbatim>\<open>float(s)\<close>, \<^verbatim>\<open>float(n)\<close>, \<^verbatim>\<open>int(x)\<close>, \<^verbatim>\<open>bool(x)\<close>\<close>

text \<open>
  A decimal floating-point literal without sign: digits, an optional point and more
  digits (at least one digit in all), an optional exponent. The result is the digit
  string's value \<open>d\<close> and the power of ten \<open>k\<close> with the literal denoting \<open>d * 10\<^sup>k\<close>.
\<close>

definition float_literal :: "string \<Rightarrow> (nat \<times> int) option" where
  "float_literal s =
     (let ip = takeWhile isdigit s;
          r1 = dropWhile isdigit s;
          (fp, r2) = (case r1 of
                        [] \<Rightarrow> ([], [])
                      | c # cs \<Rightarrow>
                          if c = CHR ''.'' then (takeWhile isdigit cs, dropWhile isdigit cs)
                          else ([], r1))
      in if ip = [] \<and> fp = [] then None
         else case r2 of
                [] \<Rightarrow> Some (digits_value (ip @ fp), - int (length fp))
              | c # cs \<Rightarrow>
                  if c = CHR ''e'' \<or> c = CHR ''E''
                  then (let (eneg, ed) = split_sign cs
                        in if ed = [] \<or> \<not> list_all isdigit ed then None
                           else Some (digits_value (ip @ fp),
                                      (if eneg then - int (digits_value ed)
                                       else int (digits_value ed)) - int (length fp)))
                  else None)"

text \<open>
  \<^verbatim>\<open>float(s)\<close>: surrounding whitespace, underscores between digits, an optional sign, then
  \<^verbatim>\<open>inf\<close>, \<^verbatim>\<open>infinity\<close> or \<^verbatim>\<open>nan\<close> in any case, or a decimal literal, correctly rounded.
  Anything else raises \<^verbatim>\<open>ValueError\<close>; a literal too large is an infinity, not an error.
\<close>

definition float_of_str :: "string \<Rightarrow> py_error + pyfloat" where
  "float_of_str s =
     (case del_underscores (CHR 0x00) (strip_with num_isspace s) of
        None \<Rightarrow> Inl ValueError
      | Some u \<Rightarrow>
          let (neg, body) = split_sign u
          in if lower body = ''inf'' \<or> lower body = ''infinity'' then Inr (Infinite neg)
             else if lower body = ''nan'' then Inr NaN
             else case float_literal body of
                    None \<Rightarrow> Inl ValueError
                  | Some (d, k) \<Rightarrow> Inr (double_of_decimal neg d k))"

text \<open>\<^verbatim>\<open>float(n)\<close> rounds to nearest; \<^verbatim>\<open>OverflowError\<close> when the result is not finite.\<close>

definition float_of_int :: "int \<Rightarrow> py_error + pyfloat" where
  "float_of_int n =
     (case round_to_double (n < 0) (nat \<bar>n\<bar>) 1 of
        Infinite _ \<Rightarrow> Inl OverflowError
      | x \<Rightarrow> Inr x)"

text \<open>
  \<^verbatim>\<open>int(x)\<close>: the integral part of a finite value (the significand shifted by the
  exponent, bits shifted out being dropped); \<^verbatim>\<open>OverflowError\<close> for an infinity and
  \<^verbatim>\<open>ValueError\<close> for NaN.
\<close>

definition int_of_float :: "pyfloat \<Rightarrow> py_error + int" where
  "int_of_float x =
     (case x of
        NaN \<Rightarrow> Inl ValueError
      | Infinite _ \<Rightarrow> Inl OverflowError
      | Finite s m e \<Rightarrow>
          let a = (if 0 \<le> e then m * 2 ^ nat e else m div 2 ^ nat (- e))
          in Inr (if s then - int a else int a))"

text \<open>\<^verbatim>\<open>bool(x)\<close> is \<^verbatim>\<open>x != 0.0\<close>: false for both zeros, true for infinities and NaN.\<close>

definition bool_of_float :: "pyfloat \<Rightarrow> bool" where
  "bool_of_float x = (case x of Finite s m e \<Rightarrow> m \<noteq> 0 | Infinite _ \<Rightarrow> True | NaN \<Rightarrow> True)"

subsection \<open>\<^verbatim>\<open>str(x)\<close> of a float: the shortest decimal that reads back\<close>

fun decimal_length :: "nat \<Rightarrow> nat" where
  "decimal_length n = (if n = 0 then 0 else Suc (decimal_length (n div 10)))"

declare decimal_length.simps [simp del]

text \<open>\<open>\<lfloor>log\<^sub>1\<^sub>0 (p / q)\<rfloor>\<close> for positive \<open>p\<close> and \<open>q\<close>.\<close>

definition floor_log10 :: "nat \<Rightarrow> nat \<Rightarrow> int" where
  "floor_log10 p q =
     (let a = int (decimal_length p) - int (decimal_length q);
          (n, d) = scale 10 p q a
      in if d \<le> n then a else a - 1)"

text \<open>
  The candidate with \<open>k\<close> significant digits for the positive value \<open>m * 2\<^sup>e\<close>: of the two
  neighbours \<open>lo * 10\<^sup>u\<close> and \<open>(lo + 1) * 10\<^sup>u\<close> of the value among the decimals with \<open>k\<close>
  digits, the one that converts back to \<open>Finite False m e\<close>; the nearer one when both do.
\<close>

definition reads_back :: "nat \<Rightarrow> int \<Rightarrow> nat \<Rightarrow> int \<Rightarrow> bool" where
  "reads_back m e c u = (double_of_decimal False c u = Finite False m e)"

definition candidate :: "nat \<Rightarrow> int \<Rightarrow> nat \<Rightarrow> (nat \<times> int) option" where
  "candidate m e k =
     (let (p, q) = scale 2 m 1 (- e);
          u = floor_log10 p q - int k + 1;
          (n, d) = scale 10 p q u;
          lo = n div d;
          r = n mod d;
          lo_ok = reads_back m e lo u;
          hi_ok = reads_back m e (lo + 1) u
      in if lo_ok \<and> hi_ok then
           (if 2 * r < d \<or> (2 * r = d \<and> even lo) then Some (lo, u) else Some (lo + 1, u))
         else if lo_ok then Some (lo, u)
         else if hi_ok then Some (lo + 1, u)
         else None)"

text \<open>With 17 significant digits the nearest decimal always reads back.\<close>

definition nearest17 :: "nat \<Rightarrow> int \<Rightarrow> nat \<times> int" where
  "nearest17 m e =
     (let (p, q) = scale 2 m 1 (- e);
          u = floor_log10 p q - 16;
          (n, d) = scale 10 p q u
      in (round_half_even n d, u))"

fun strip_zeros :: "nat \<Rightarrow> int \<Rightarrow> nat \<times> int" where
  "strip_zeros c u =
     (if c \<noteq> 0 \<and> c mod 10 = 0 then strip_zeros (c div 10) (u + 1) else (c, u))"

declare strip_zeros.simps [simp del]

text \<open>
  The search for the shortest digits: the first number of digits in the list that has a
  candidate, and the 17 digits that always suffice when none of them has.
\<close>

fun shortest_from :: "nat \<Rightarrow> int \<Rightarrow> nat list \<Rightarrow> nat \<times> int" where
  "shortest_from m e [] = nearest17 m e"
| "shortest_from m e (k # ks) =
     (case candidate m e k of Some cu \<Rightarrow> cu | None \<Rightarrow> shortest_from m e ks)"

text \<open>
  The shortest digits \<open>c\<close> and the exponent \<open>u\<close> with \<open>c * 10\<^sup>u\<close> reading back as the value,
  without trailing zeros.
\<close>

definition shortest_digits :: "nat \<Rightarrow> int \<Rightarrow> nat \<times> int" where
  "shortest_digits m e =
     (case shortest_from m e [1, 2, 3, 4, 5, 6, 7, 8, 9, 10, 11, 12, 13, 14, 15, 16] of
        (c, u) \<Rightarrow> strip_zeros c u)"

definition exponent_str :: "int \<Rightarrow> string" where
  "exponent_str x =
     (let s = str_of_nat (nat \<bar>x\<bar>)
      in (if x < 0 then ''-'' else ''+'') @ (if length s < 2 then ''0'' @ s else s))"

text \<open>
  The layout of \<^verbatim>\<open>repr\<close>: with the digits \<open>ds\<close> and the value \<open>0.ds * 10\<^sup>d\<close>, exponent
  notation when \<open>d \<le> -4\<close> or \<open>16 < d\<close>, else positional notation, with \<^verbatim>\<open>.0\<close> added to a
  whole number.
\<close>

definition format_repr :: "string \<Rightarrow> int \<Rightarrow> string" where
  "format_repr ds decpt =
     (let n = int (length ds)
      in if decpt \<le> - 4 \<or> 16 < decpt then
           (case ds of
              [] \<Rightarrow> []
            | c # cs \<Rightarrow> c # (if cs = [] then [] else CHR ''.'' # cs)) @ ''e''
             @ exponent_str (decpt - 1)
         else if decpt \<le> 0 then ''0.'' @ replicate (nat (- decpt)) (CHR ''0'') @ ds
         else if n \<le> decpt then ds @ replicate (nat (decpt - n)) (CHR ''0'') @ ''.0''
         else take (nat decpt) ds @ ''.'' @ drop (nat decpt) ds)"

definition str_of_float :: "pyfloat \<Rightarrow> string" where
  "str_of_float x =
     (case x of
        NaN \<Rightarrow> ''nan''
      | Infinite s \<Rightarrow> (if s then ''-inf'' else ''inf'')
      | Finite s m e \<Rightarrow>
          (if s then ''-'' else []) @
          (if m = 0 then ''0.0''
           else let (c, u) = shortest_digits m e; ds = str_of_nat c
                in format_repr ds (u + int (length ds))))"

subsection \<open>Standard streams and exceptions\<close>

text \<open>
  The world a run acts on: the lines still to be read from standard input, the lines
  written to standard output so far, and the interpreter's limit on the digits of an int
  literal, which the interpreter takes from its environment when it starts. Every other
  part of the environment is the extension field of the record, of any type.
\<close>

record world =
  stdin :: "string list"
  stdout :: "string list"
  int_max_str_digits :: nat

text \<open>
  A statement maps the world to a value or a raised exception, and the world it leaves.
  An exception does not undo what was written before it.
\<close>

type_synonym ('a, 'w) stmt = "'w world_scheme \<Rightarrow> (py_error + 'a) \<times> 'w world_scheme"

definition seq :: "('a, 'w) stmt \<Rightarrow> ('a \<Rightarrow> ('b, 'w) stmt) \<Rightarrow> ('b, 'w) stmt" where
  "seq m f w = (case m w of (Inl e, w') \<Rightarrow> (Inl e, w') | (Inr v, w') \<Rightarrow> f v w')"

text \<open>A conversion has no effect on the world; it yields its value or raises.\<close>

definition eval :: "py_error + 'a \<Rightarrow> ('a, 'w) stmt" where
  "eval r w = (r, w)"

text \<open>\<^verbatim>\<open>int(s)\<close> as a statement: the conversion under the limit of the world it runs in.\<close>

definition py_int :: "string \<Rightarrow> (int, 'w) stmt" where
  "py_int s w = (int_of_str (int_max_str_digits w) s, w)"

text \<open>\<^verbatim>\<open>input()\<close>: the next line without its newline; \<^verbatim>\<open>EOFError\<close> at the end of input.\<close>

definition input :: "(string, 'w) stmt" where
  "input w = (case stdin w of [] \<Rightarrow> (Inl EOFError, w) | l # ls \<Rightarrow> (Inr l, w\<lparr>stdin := ls\<rparr>))"

text \<open>\<^verbatim>\<open>print(s)\<close>: one more line on standard output.\<close>

definition print :: "string \<Rightarrow> (unit, 'w) stmt" where
  "print s w = (Inr (), w\<lparr>stdout := stdout w @ [s]\<rparr>)"

subsection \<open>The nine formatted lines\<close>

text \<open>
  Each f-string of the source, as the text it evaluates to or the exception its
  conversion raises. \<^verbatim>\<open>{v}\<close> formats an int or a float as \<^verbatim>\<open>str(v)\<close> does.
\<close>

definition fmt :: "string \<Rightarrow> ('a \<Rightarrow> string) \<Rightarrow> py_error + 'a \<Rightarrow> py_error + string" where
  "fmt label render r = (case r of Inl e \<Rightarrow> Inl e | Inr v \<Rightarrow> Inr (label @ render v))"

definition string_to_int :: "nat \<Rightarrow> string \<Rightarrow> py_error + string" where
  "string_to_int dmax str_int = fmt ''String to int: '' str_of_int (int_of_str dmax str_int)"

definition string_to_float :: "string \<Rightarrow> py_error + string" where
  "string_to_float str_float = fmt ''String to float: '' str_of_float (float_of_str str_float)"

definition string_to_bool :: "string \<Rightarrow> py_error + string" where
  "string_to_bool str_bool =
     Inr (''String to bool: '' @ lower (str_of_bool (lower str_bool = ''true'')))"

definition int_to_string :: "int \<Rightarrow> py_error + string" where
  "int_to_string int_val = Inr (''Int to string: '' @ str_of_int int_val)"

definition int_to_float :: "int \<Rightarrow> py_error + string" where
  "int_to_float int_val = fmt ''Int to float: '' str_of_float (float_of_int int_val)"

definition int_to_bool :: "int \<Rightarrow> py_error + string" where
  "int_to_bool int_val = Inr (''Int to bool: '' @ lower (str_of_bool (bool_of_int int_val)))"

definition float_to_string :: "pyfloat \<Rightarrow> py_error + string" where
  "float_to_string float_val = Inr (''Float to string: '' @ str_of_float float_val)"

definition float_to_int :: "pyfloat \<Rightarrow> py_error + string" where
  "float_to_int float_val = fmt ''Float to int: '' str_of_int (int_of_float float_val)"

definition float_to_bool :: "pyfloat \<Rightarrow> py_error + string" where
  "float_to_bool float_val =
     Inr (''Float to bool: '' @ lower (str_of_bool (bool_of_float float_val)))"

text \<open>\<^verbatim>\<open>print(f"...")\<close>: the f-string is evaluated first, then printed.\<close>

definition print_f :: "py_error + string \<Rightarrow> (unit, 'w) stmt" where
  "print_f r = seq (eval r) print"

text \<open>The first print converts its string under the limit of the world it runs in.\<close>

definition print_string_to_int :: "string \<Rightarrow> (unit, 'w) stmt" where
  "print_string_to_int str_int w = print_f (string_to_int (int_max_str_digits w) str_int) w"

subsection \<open>The program\<close>

text \<open>
  \<^verbatim>\<open>solve()\<close>, statement by statement: three stripped lines, a line parsed as an int, a
  line parsed as a float, then the nine prints in the order of the source.
\<close>

definition solve :: "(unit, 'w) stmt" where
  "solve =
     seq input (\<lambda>line1. let str_int = strip line1 in
     seq input (\<lambda>line2. let str_float = strip line2 in
     seq input (\<lambda>line3. let str_bool = strip line3 in
     seq input (\<lambda>line4. seq (py_int line4) (\<lambda>int_val.
     seq input (\<lambda>line5. seq (eval (float_of_str line5)) (\<lambda>float_val.
     seq (print_string_to_int str_int) (\<lambda>_.
     seq (print_f (string_to_float str_float)) (\<lambda>_.
     seq (print_f (string_to_bool str_bool)) (\<lambda>_.
     seq (print_f (int_to_string int_val)) (\<lambda>_.
     seq (print_f (int_to_float int_val)) (\<lambda>_.
     seq (print_f (int_to_bool int_val)) (\<lambda>_.
     seq (print_f (float_to_string float_val)) (\<lambda>_.
     seq (print_f (float_to_int float_val)) (\<lambda>_.
     print_f (float_to_bool float_val))))))))))))))))"

text \<open>The lines a run adds to standard output, and how the run ends.\<close>

definition printed :: "'w world_scheme \<Rightarrow> string list" where
  "printed w = drop (length (stdout w)) (stdout (snd (solve w)))"

definition outcome :: "'w world_scheme \<Rightarrow> py_error + unit" where
  "outcome w = fst (solve w)"

subsection \<open>Notions the properties are stated with\<close>

text \<open>
  The nine conversions in the order of the conversion table, for the five values the
  input reader hands over and the limit on int literals in force.
\<close>

definition conversions ::
  "nat \<Rightarrow> string \<Rightarrow> string \<Rightarrow> string \<Rightarrow> int \<Rightarrow> pyfloat \<Rightarrow> (py_error + string) list" where
  "conversions dmax str_int str_float str_bool int_val float_val =
     [string_to_int dmax str_int, string_to_float str_float, string_to_bool str_bool,
      int_to_string int_val, int_to_float int_val, int_to_bool int_val,
      float_to_string float_val, float_to_int float_val, float_to_bool float_val]"

text \<open>Printing a list of formatted lines in order, up to the first that raises.\<close>

fun print_all :: "(py_error + string) list \<Rightarrow> (unit, 'w) stmt" where
  "print_all [] w = (Inr (), w)"
| "print_all (Inl e # rs) w = (Inl e, w)"
| "print_all (Inr s # rs) w = print_all rs (w\<lparr>stdout := stdout w @ [s]\<rparr>)"

text \<open>The exact value of a finite float, a rational number.\<close>

fun float_value :: "pyfloat \<Rightarrow> rat option" where
  "float_value (Finite s m e) = Some ((if s then - 1 else 1) * of_nat m * 2 powi e)"
| "float_value (Infinite s) = None"
| "float_value NaN = None"

text \<open>\<^verbatim>\<open>x == 0.0\<close>: the value of \<open>x\<close> is zero, whatever its sign.\<close>

definition is_zero :: "pyfloat \<Rightarrow> bool" where
  "is_zero x = (float_value x = Some 0)"

text \<open>
  Truncation toward zero in the words of the specification: the floor of a positive
  number, the ceiling of a negative one.
\<close>

definition truncate_toward_zero :: "rat \<Rightarrow> int" where
  "truncate_toward_zero q = (if 0 \<le> q then \<lfloor>q\<rfloor> else \<lceil>q\<rceil>)"

text \<open>
  What a list of formatted lines leaves on standard output (the lines before the first
  exception) and how printing it ends.
\<close>

definition lines_of :: "(py_error + string) list \<Rightarrow> string list" where
  "lines_of rs = map projr (takeWhile (\<lambda>r. \<not> isl r) rs)"

definition result_of :: "(py_error + string) list \<Rightarrow> py_error + unit" where
  "result_of rs = (case dropWhile (\<lambda>r. \<not> isl r) rs of [] \<Rightarrow> Inr () | r # _ \<Rightarrow> Inl (projl r))"


text \<open>
  A line that must be numeric is present and does not parse: the first line as an int or
  the second as a float once stripped, the fourth as an int or the fifth as a float as
  they stand, the ints under the limit \<open>dmax\<close>.
\<close>

definition malformed_numeric :: "nat \<Rightarrow> string list \<Rightarrow> bool" where
  "malformed_numeric dmax ls =
     ((0 < length ls \<and> isl (int_of_str dmax (strip (ls ! 0))))
      \<or> (1 < length ls \<and> isl (float_of_str (strip (ls ! 1))))
      \<or> (3 < length ls \<and> isl (int_of_str dmax (ls ! 3)))
      \<or> (4 < length ls \<and> isl (float_of_str (ls ! 4))))"

section \<open>The structure of a run\<close>

lemmas text_eval =
  strip_def strip_with_def isspace_def num_isspace_def split_sign_def isdigit_def
  digits_value_def digit_value_def digit_char_def lower_def lower_char_def str_of_bool_def
  str_of_int_def str_of_nat.simps int_of_str_def exceeds_limit_def bool_of_int_def
  char_of_eq_iff

lemmas float_eval =
  float_of_str_def float_literal_def double_of_decimal_def round_to_double_def scale_def
  bit_length.simps round_half_even_def float_of_int_def int_of_float_def bool_of_float_def
  Let_def

lemmas repr_eval =
  str_of_float_def shortest_digits_def candidate_def reads_back_def
  nearest17_def strip_zeros.simps format_repr_def exponent_str_def

lemmas fmt_eval =
  fmt_def string_to_int_def string_to_float_def string_to_bool_def int_to_string_def
  int_to_float_def int_to_bool_def float_to_string_def float_to_int_def float_to_bool_def

lemma print_all_eq:
  "print_all rs w = (result_of rs, w\<lparr>stdout := stdout w @ lines_of rs\<rparr>)"
proof (induction rs arbitrary: w)
  case Nil
  show ?case by (simp add: lines_of_def result_of_def)
next
  case (Cons r rs)
  show ?case
  proof (cases r)
    case (Inl e)
    then show ?thesis by (simp add: lines_of_def result_of_def)
  next
    case (Inr s)
    then show ?thesis using Cons.IH [of "w\<lparr>stdout := stdout w @ [s]\<rparr>"]
      by (simp add: lines_of_def result_of_def)
  qed
qed

lemma print_f_Inl: "print_f (Inl e) w = (Inl e, w)"
  by (simp add: print_f_def seq_def eval_def)

lemma print_f_Inr: "print_f (Inr s) w = (Inr (), w\<lparr>stdout := stdout w @ [s]\<rparr>)"
  by (simp add: print_f_def seq_def eval_def print_def)

lemma seq_print_f:
  "seq (print_f r) (\<lambda>_. k) w =
     (case r of Inl e \<Rightarrow> (Inl e, w) | Inr s \<Rightarrow> k (w\<lparr>stdout := stdout w @ [s]\<rparr>))"
  by (cases r) (simp_all add: seq_def print_f_Inl print_f_Inr)

lemma print_all_Cons:
  "print_all (r # rs) w =
     (case r of Inl e \<Rightarrow> (Inl e, w) | Inr s \<Rightarrow> print_all rs (w\<lparr>stdout := stdout w @ [s]\<rparr>))"
  by (cases r) simp_all

lemma print_f_last: "print_f r w = print_all [r] w"
  by (cases r) (simp_all add: print_f_Inl print_f_Inr)

lemma solve_prints:
  "seq (print_f r1) (\<lambda>_. seq (print_f r2) (\<lambda>_. seq (print_f r3) (\<lambda>_.
   seq (print_f r4) (\<lambda>_. seq (print_f r5) (\<lambda>_. seq (print_f r6) (\<lambda>_.
   seq (print_f r7) (\<lambda>_. seq (print_f r8) (\<lambda>_. print_f r9)))))))) w
   = print_all [r1, r2, r3, r4, r5, r6, r7, r8, r9] w"
  unfolding seq_print_f print_all_Cons print_f_last
  by (simp split: sum.splits)

lemma input_Cons: "stdin w = l # ls \<Longrightarrow> input w = (Inr l, w\<lparr>stdin := ls\<rparr>)"
  by (simp add: input_def)

lemma input_Nil: "stdin w = [] \<Longrightarrow> input w = (Inl EOFError, w)"
  by (simp add: input_def)

lemma seq_input_Cons: "stdin w = l # ls \<Longrightarrow> seq input f w = f l (w\<lparr>stdin := ls\<rparr>)"
  by (simp add: seq_def input_Cons)

lemma seq_input_Nil: "stdin w = [] \<Longrightarrow> seq input f w = (Inl EOFError, w)"
  by (simp add: seq_def input_Nil)

lemma seq_eval: "seq (eval r) f w = (case r of Inl e \<Rightarrow> (Inl e, w) | Inr v \<Rightarrow> f v w)"
  by (cases r) (simp_all add: seq_def eval_def)

lemma seq_py_int:
  "seq (py_int s) f w =
     (case int_of_str (int_max_str_digits w) s of Inl e \<Rightarrow> (Inl e, w) | Inr v \<Rightarrow> f v w)"
  by (cases "int_of_str (int_max_str_digits w) s") (simp_all add: seq_def py_int_def)

lemma seq_print_string_to_int:
  "seq (print_string_to_int s) k w = seq (print_f (string_to_int (int_max_str_digits w) s)) k w"
  by (simp add: seq_def print_string_to_int_def)

lemma solve_five:
  assumes "stdin w = l1 # l2 # l3 # l4 # l5 # rest"
  shows "solve w =
     (case int_of_str (int_max_str_digits w) l4 of
        Inl e \<Rightarrow> (Inl e, w\<lparr>stdin := l5 # rest\<rparr>)
      | Inr n \<Rightarrow>
          (case float_of_str l5 of
             Inl e \<Rightarrow> (Inl e, w\<lparr>stdin := rest\<rparr>)
           | Inr x \<Rightarrow> print_all (conversions (int_max_str_digits w) (strip l1) (strip l2) (strip l3) n x)
                        (w\<lparr>stdin := rest\<rparr>)))"
  using assms
  by (simp add: solve_def seq_input_Cons seq_eval seq_py_int seq_print_string_to_int solve_prints
        conversions_def Let_def split: sum.splits)

lemma short_list_cases:
  assumes "length xs < 5"
  obtains "xs = []" | a where "xs = [a]" | a b where "xs = [a, b]"
    | a b c where "xs = [a, b, c]" | a b c d where "xs = [a, b, c, d]"
proof (cases xs)
  case Nil
  then show ?thesis using that by simp
next
  case c1: (Cons a t1)
  show ?thesis
  proof (cases t1)
    case Nil
    then show ?thesis using that c1 by simp
  next
    case c2: (Cons b t2)
    show ?thesis
    proof (cases t2)
      case Nil
      then show ?thesis using that c1 c2 by simp
    next
      case c3: (Cons c t3)
      show ?thesis
      proof (cases t3)
        case Nil
        then show ?thesis using that c1 c2 c3 by simp
      next
        case c4: (Cons d t4)
        then have "t4 = []" using assms c1 c2 c3 by simp
        then show ?thesis using that c1 c2 c3 c4 by simp
      qed
    qed
  qed
qed

lemma long_list_cases:
  assumes "5 \<le> length xs"
  obtains a b c d e rest where "xs = a # b # c # d # e # rest"
proof -
  from assms obtain a t1 where 1: "xs = a # t1" by (cases xs) auto
  with assms obtain b t2 where 2: "t1 = b # t2" by (cases t1) auto
  with 1 assms obtain c t3 where 3: "t2 = c # t3" by (cases t2) auto
  with 1 2 assms obtain d t4 where 4: "t3 = d # t4" by (cases t3) auto
  with 1 2 3 assms obtain e t5 where 5: "t4 = e # t5" by (cases t4) auto
  show ?thesis using that 1 2 3 4 5 by simp
qed

lemma solve_short:
  assumes "length (stdin w) < 4"
  shows "solve w = (Inl EOFError, w\<lparr>stdin := []\<rparr>)"
proof -
  from assms have "length (stdin w) < 5" by simp
  then show ?thesis
  proof (cases rule: short_list_cases)
    case 5
    then show ?thesis using assms by simp
  qed (simp_all add: solve_def seq_input_Cons seq_input_Nil Let_def)
qed

lemma solve_four:
  assumes "stdin w = [l1, l2, l3, l4]"
  shows "solve w = (case int_of_str (int_max_str_digits w) l4 of
                      Inl e \<Rightarrow> (Inl e, w\<lparr>stdin := []\<rparr>)
                    | Inr n \<Rightarrow> (Inl EOFError, w\<lparr>stdin := []\<rparr>))"
  using assms
  by (simp add: solve_def seq_input_Cons seq_input_Nil seq_eval seq_py_int Let_def
        split: sum.splits)

lemma printed_short:
  assumes "length (stdin w) < 5"
  shows "printed w = []" and "\<exists>e. outcome w = Inl e"
proof -
  have "stdout (snd (solve w)) = stdout w \<and> (\<exists>e. fst (solve w) = Inl e)"
    using assms
  proof (cases rule: short_list_cases)
    case (5 a b c d)
    then show ?thesis by (simp add: solve_four split: sum.splits)
  qed (simp_all add: solve_short)
  then show "printed w = []" and "\<exists>e. outcome w = Inl e"
    by (simp_all add: printed_def outcome_def)
qed

section \<open>What a run prints\<close>

lemma lines_of_nth:
  assumes "k < length (lines_of rs)"
  shows "k < length rs" and "rs ! k = Inr (lines_of rs ! k)"
proof -
  let ?P = "\<lambda>r :: py_error + string. \<not> isl r"
  from assms have k: "k < length (takeWhile ?P rs)" by (simp add: lines_of_def)
  then show "k < length rs"
    using length_takeWhile_le [of ?P rs] by simp
  from k have eq: "takeWhile ?P rs ! k = rs ! k" by (rule takeWhile_nth)
  from k have "takeWhile ?P rs ! k \<in> set (takeWhile ?P rs)" by (rule nth_mem)
  then have "?P (rs ! k)" using eq by (auto dest: set_takeWhileD)
  then have "rs ! k = Inr (projr (rs ! k))" by (cases "rs ! k") simp_all
  then show "rs ! k = Inr (lines_of rs ! k)" using k eq by (simp add: lines_of_def)
qed

lemma solve_parsed:
  assumes "stdin w = l1 # l2 # l3 # l4 # l5 # rest"
    and "int_of_str (int_max_str_digits w) l4 = Inr n" and "float_of_str l5 = Inr x"
  shows "solve w =
     (result_of (conversions (int_max_str_digits w) (strip l1) (strip l2) (strip l3) n x),
      w\<lparr>stdin := rest,
        stdout := stdout w @ lines_of (conversions (int_max_str_digits w) (strip l1) (strip l2) (strip l3) n x)\<rparr>)"
  using assms by (simp add: solve_five print_all_eq)

lemma printed_parsed:
  assumes "stdin w = l1 # l2 # l3 # l4 # l5 # rest"
    and "int_of_str (int_max_str_digits w) l4 = Inr n" and "float_of_str l5 = Inr x"
  shows "printed w = lines_of (conversions (int_max_str_digits w) (strip l1) (strip l2) (strip l3) n x)"
    and "outcome w = result_of (conversions (int_max_str_digits w) (strip l1) (strip l2) (strip l3) n x)"
  using solve_parsed [OF assms] by (simp_all add: printed_def outcome_def)

lemma printed_unparsed:
  assumes "stdin w = l1 # l2 # l3 # l4 # l5 # rest"
    and "int_of_str (int_max_str_digits w) l4 = Inl e \<or> (\<exists>n. int_of_str (int_max_str_digits w) l4 = Inr n \<and> float_of_str l5 = Inl e)"
  shows "printed w = []" and "outcome w = Inl e"
  using assms by (auto simp add: solve_five printed_def outcome_def)

lemma printed_nth:
  assumes "k < length (printed w)"
  obtains l1 l2 l3 l4 l5 rest n x where
    "stdin w = l1 # l2 # l3 # l4 # l5 # rest" "int_of_str (int_max_str_digits w) l4 = Inr n" "float_of_str l5 = Inr x"
    "k < 9" "conversions (int_max_str_digits w) (strip l1) (strip l2) (strip l3) n x ! k = Inr (printed w ! k)"
proof -
  have len: "5 \<le> length (stdin w)"
  proof (rule ccontr)
    assume "\<not> 5 \<le> length (stdin w)"
    then have "printed w = []" by (simp add: printed_short)
    with assms show False by simp
  qed
  then obtain l1 l2 l3 l4 l5 rest where s: "stdin w = l1 # l2 # l3 # l4 # l5 # rest"
    by (rule long_list_cases)
  have "\<exists>n. int_of_str (int_max_str_digits w) l4 = Inr n"
  proof (cases "int_of_str (int_max_str_digits w) l4")
    case (Inl e)
    with s have "printed w = []" by (simp add: printed_unparsed)
    with assms show ?thesis by simp
  qed simp
  then obtain n where n: "int_of_str (int_max_str_digits w) l4 = Inr n" ..
  have "\<exists>x. float_of_str l5 = Inr x"
  proof (cases "float_of_str l5")
    case (Inl e)
    with s n have "printed w = []" by (simp add: printed_unparsed)
    with assms show ?thesis by simp
  qed simp
  then obtain x where x: "float_of_str l5 = Inr x" ..
  let ?cs = "conversions (int_max_str_digits w) (strip l1) (strip l2) (strip l3) n x"
  have p: "printed w = lines_of ?cs" using s n x by (rule printed_parsed)
  with assms have "k < length (lines_of ?cs)" by simp
  then have "k < length ?cs" and "?cs ! k = Inr (lines_of ?cs ! k)"
    by (rule lines_of_nth)+
  then have "k < 9" and "?cs ! k = Inr (printed w ! k)"
    using p by (simp_all add: conversions_def)
  with s n x show ?thesis using that by blast
qed

section \<open>Lower case\<close>

lemma char_eq_of_char: "c = d \<longleftrightarrow> (of_char c :: nat) = of_char d"
  by (simp add: of_char_eq_iff)

lemma lower_char_code:
  "(of_char (lower_char c) :: nat) =
     (let n = of_char c
      in if (65 \<le> n \<and> n \<le> 90) \<or> (192 \<le> n \<and> n \<le> 222 \<and> n \<noteq> 215) then n + 32 else n)"
  by (simp add: lower_char_def Let_def)

lemma lower_char_true:
  "lower_char c = CHR ''t'' \<longleftrightarrow> c = CHR ''t'' \<or> c = CHR ''T''"
  "lower_char c = CHR ''r'' \<longleftrightarrow> c = CHR ''r'' \<or> c = CHR ''R''"
  "lower_char c = CHR ''u'' \<longleftrightarrow> c = CHR ''u'' \<or> c = CHR ''U''"
  "lower_char c = CHR ''e'' \<longleftrightarrow> c = CHR ''e'' \<or> c = CHR ''E''"
  unfolding char_eq_of_char [of _ "CHR ''t''"] char_eq_of_char [of _ "CHR ''T''"]
    char_eq_of_char [of _ "CHR ''r''"] char_eq_of_char [of _ "CHR ''R''"]
    char_eq_of_char [of _ "CHR ''u''"] char_eq_of_char [of _ "CHR ''U''"]
    char_eq_of_char [of _ "CHR ''e''"] char_eq_of_char [of _ "CHR ''E''"]
    lower_char_code Let_def
  by (simp_all; arith)+

lemma lower_eq_true:
  "lower t = ''true'' \<longleftrightarrow>
     (\<exists>a b c d. t = [a, b, c, d] \<and> a \<in> {CHR ''t'', CHR ''T''} \<and> b \<in> {CHR ''r'', CHR ''R''}
        \<and> c \<in> {CHR ''u'', CHR ''U''} \<and> d \<in> {CHR ''e'', CHR ''E''})"
proof
  assume "lower t = ''true''"
  then obtain a b c d where t: "t = [a, b, c, d]"
    and "lower_char a = CHR ''t''" "lower_char b = CHR ''r''"
        "lower_char c = CHR ''u''" "lower_char d = CHR ''e''"
    by (auto simp: lower_def map_eq_Cons_conv)
  then show "\<exists>a b c d. t = [a, b, c, d] \<and> a \<in> {CHR ''t'', CHR ''T''} \<and> b \<in> {CHR ''r'', CHR ''R''}
        \<and> c \<in> {CHR ''u'', CHR ''U''} \<and> d \<in> {CHR ''e'', CHR ''E''}"
    unfolding lower_char_true by blast
next
  assume "\<exists>a b c d. t = [a, b, c, d] \<and> a \<in> {CHR ''t'', CHR ''T''} \<and> b \<in> {CHR ''r'', CHR ''R''}
        \<and> c \<in> {CHR ''u'', CHR ''U''} \<and> d \<in> {CHR ''e'', CHR ''E''}"
  then obtain a b c d where t: "t = [a, b, c, d]"
    and "a = CHR ''t'' \<or> a = CHR ''T''" "b = CHR ''r'' \<or> b = CHR ''R''"
        "c = CHR ''u'' \<or> c = CHR ''U''" "d = CHR ''e'' \<or> d = CHR ''E''"
    by blast
  then have "lower_char a = CHR ''t''" "lower_char b = CHR ''r''"
        "lower_char c = CHR ''u''" "lower_char d = CHR ''e''"
    unfolding lower_char_true by simp_all
  with t show "lower t = ''true''" by (simp add: lower_def)
qed

section \<open>The example run of the specification\<close>

lemma strip_example:
  "strip ''42'' = ''42''" "strip ''3.14'' = ''3.14''" "strip ''True'' = ''True''"
  by (simp_all add: text_eval)

lemma int_of_str_42: "int_of_str dmax ''42'' = Inr 42"
  by (simp add: text_eval)

lemma int_of_str_7: "int_of_str dmax ''7'' = Inr 7"
  by (simp add: text_eval)

lemma float_of_str_3_14: "float_of_str ''3.14'' = Inr (Finite False 7070651414971679 (- 51))"
  by (simp add: text_eval float_eval cong: let_weak_cong)

lemma float_of_str_2_5: "float_of_str ''2.5'' = Inr (Finite False 5629499534213120 (- 51))"
  by (simp add: text_eval float_eval cong: let_weak_cong)

lemma float_of_int_7: "float_of_int 7 = Inr (Finite False 7881299347898368 (- 50))"
  by (simp add: float_eval cong: let_weak_cong)

lemma int_of_float_2_5: "int_of_float (Finite False 5629499534213120 (- 51)) = Inr 2"
  by (simp add: float_eval)

lemma floor_log10_3_14: "floor_log10 7070651414971679 2251799813685248 = 0"
  by (simp add: floor_log10_def decimal_length.simps scale_def Let_def cong: let_weak_cong)

lemma floor_log10_2_5: "floor_log10 5629499534213120 2251799813685248 = 0"
  by (simp add: floor_log10_def decimal_length.simps scale_def Let_def cong: let_weak_cong)

lemma floor_log10_7: "floor_log10 7881299347898368 1125899906842624 = 0"
  by (simp add: floor_log10_def decimal_length.simps scale_def Let_def cong: let_weak_cong)

lemma str_of_float_3_14: "str_of_float (Finite False 7070651414971679 (- 51)) = ''3.14''"
  by (simp add: text_eval float_eval repr_eval floor_log10_3_14 cong: let_weak_cong)

lemma str_of_float_2_5: "str_of_float (Finite False 5629499534213120 (- 51)) = ''2.5''"
  by (simp add: text_eval float_eval repr_eval floor_log10_2_5 cong: let_weak_cong)

lemma str_of_float_7: "str_of_float (Finite False 7881299347898368 (- 50)) = ''7.0''"
  by (simp add: text_eval float_eval repr_eval floor_log10_7 cong: let_weak_cong)

lemma str_of_int_small:
  "str_of_int 42 = ''42''" "str_of_int 7 = ''7''" "str_of_int 2 = ''2''"
  by (simp_all add: text_eval)

lemma lower_bool: "lower (str_of_bool b) = (if b then ''true'' else ''false'')"
  by (simp add: text_eval)

lemma conversions_example:
  "conversions dmax ''42'' ''3.14'' ''True'' 7 (Finite False 5629499534213120 (- 51)) =
     [Inr ''String to int: 42'', Inr ''String to float: 3.14'', Inr ''String to bool: true'',
      Inr ''Int to string: 7'', Inr ''Int to float: 7.0'', Inr ''Int to bool: true'',
      Inr ''Float to string: 2.5'', Inr ''Float to int: 2'', Inr ''Float to bool: true'']"
proof -
  have "lower ''True'' = ''true''" by (simp add: text_eval)
  then show ?thesis
    by (simp add: conversions_def fmt_eval int_of_str_42 float_of_str_3_14 float_of_int_7
          int_of_float_2_5 str_of_float_3_14 str_of_float_2_5 str_of_float_7 str_of_int_small
          lower_bool bool_of_int_def bool_of_float_def)
qed

lemma solve_example:
  "solve \<lparr>stdin = [''42'', ''3.14'', ''True'', ''7'', ''2.5''], stdout = [],
          int_max_str_digits = dmax\<rparr> =
     (Inr (),
      \<lparr>stdin = [],
       stdout = [''String to int: 42'', ''String to float: 3.14'', ''String to bool: true'',
                 ''Int to string: 7'', ''Int to float: 7.0'', ''Int to bool: true'',
                 ''Float to string: 2.5'', ''Float to int: 2'', ''Float to bool: true''],
       int_max_str_digits = dmax\<rparr>)"
  by (simp add: solve_five [where ?l1.0 = "''42''" and ?l2.0 = "''3.14''" and ?l3.0 = "''True''"
                 and ?l4.0 = "''7''" and ?l5.0 = "''2.5''" and rest = "[]"]
        int_of_str_7 float_of_str_2_5 strip_example conversions_example)

text \<open>
  C1. For the input lines \<^verbatim>\<open>42\<close>, \<^verbatim>\<open>3.14\<close>, \<^verbatim>\<open>True\<close>, \<^verbatim>\<open>7\<close>, \<^verbatim>\<open>2.5\<close> the run ends normally, has
  read all five lines, and has written exactly the nine lines of the specification's
  example to standard output, in that order and nothing else, whatever the limit on int
  literals.
\<close>

theorem example_run:
  "solve \<lparr>stdin = [''42'', ''3.14'', ''True'', ''7'', ''2.5''], stdout = [],
          int_max_str_digits = dmax\<rparr> =
     (Inr (),
      \<lparr>stdin = [],
       stdout = [''String to int: 42'', ''String to float: 3.14'', ''String to bool: true'',
                 ''Int to string: 7'', ''Int to float: 7.0'', ''Int to bool: true'',
                 ''Float to string: 2.5'', ''Float to int: 2'', ''Float to bool: true''],
       int_max_str_digits = dmax\<rparr>)"
  by (rule solve_example)

section \<open>The formatted lines of the conversions that cannot fail\<close>

lemma string_to_bool_eq:
  "string_to_bool s = Inr (''String to bool: '' @ (if lower s = ''true'' then ''true'' else ''false''))"
  by (simp add: string_to_bool_def lower_bool)

lemma int_to_bool_eq:
  "int_to_bool n = Inr (''Int to bool: '' @ (if n = 0 then ''false'' else ''true''))"
  by (simp add: int_to_bool_def lower_bool bool_of_int_def)

lemma is_zero_iff: "is_zero x \<longleftrightarrow> \<not> bool_of_float x"
  by (cases x) (simp_all add: is_zero_def bool_of_float_def)

lemma float_to_bool_eq:
  "float_to_bool x = Inr (''Float to bool: '' @ (if is_zero x then ''false'' else ''true''))"
  by (simp add: float_to_bool_def lower_bool is_zero_iff)

lemma conversions_nth:
  "conversions dmax a b c n x ! 0 = string_to_int dmax a"
  "conversions dmax a b c n x ! 1 = string_to_float b"
  "conversions dmax a b c n x ! 2 = string_to_bool c"
  "conversions dmax a b c n x ! 3 = int_to_string n"
  "conversions dmax a b c n x ! 4 = int_to_float n"
  "conversions dmax a b c n x ! 5 = int_to_bool n"
  "conversions dmax a b c n x ! 6 = float_to_string x"
  "conversions dmax a b c n x ! 7 = float_to_int x"
  "conversions dmax a b c n x ! 8 = float_to_bool x"
  by (simp_all add: conversions_def)

section \<open>Runs on the example values\<close>

lemma float_of_str_neg_2_5:
  "float_of_str ''-2.5'' = Inr (Finite True 5629499534213120 (- 51))"
  by (simp add: text_eval float_eval cong: let_weak_cong)

lemma float_of_str_zero: "float_of_str ''0.0'' = Inr (Finite False 0 (- 1074))"
  by (simp add: text_eval float_eval cong: let_weak_cong)

lemma int_of_str_zero: "int_of_str dmax ''0'' = Inr 0"
  by (simp add: text_eval)

lemma int_of_str_neg_7: "int_of_str dmax ''-7'' = Inr (- 7)"
  by (simp add: text_eval)

lemma float_of_int_zero: "float_of_int 0 = Inr (Finite False 0 (- 1074))"
  by (simp add: float_eval)

lemma float_of_int_neg_7: "float_of_int (- 7) = Inr (Finite True 7881299347898368 (- 50))"
  by (simp add: float_eval cong: let_weak_cong)

lemma str_of_float_neg:
  "m \<noteq> 0 \<Longrightarrow> str_of_float (Finite True m e) = CHR ''-'' # str_of_float (Finite False m e)"
  by (simp add: str_of_float_def)

lemma str_of_float_zero: "str_of_float (Finite False 0 e) = ''0.0''"
  by (simp add: str_of_float_def)

lemma int_of_float_neg_2_5: "int_of_float (Finite True 5629499534213120 (- 51)) = Inr (- 2)"
  by (simp add: float_eval)

lemma int_of_float_zero: "int_of_float (Finite s 0 e) = Inr 0"
  by (simp add: float_eval)

lemma str_of_int_more:
  "str_of_int 0 = ''0''" "str_of_int (- 7) = ''-7''" "str_of_int (- 2) = ''-2''"
  by (simp_all add: text_eval)

lemma conversions_zero:
  "conversions dmax ''42'' ''3.14'' c 0 (Finite False 0 (- 1074)) =
     [Inr ''String to int: 42'', Inr ''String to float: 3.14'', string_to_bool c,
      Inr ''Int to string: 0'', Inr ''Int to float: 0.0'', Inr ''Int to bool: false'',
      Inr ''Float to string: 0.0'', Inr ''Float to int: 0'', Inr ''Float to bool: false'']"
  by (simp add: conversions_def fmt_eval int_of_str_42 float_of_str_3_14 float_of_int_zero
        int_of_float_zero str_of_float_3_14 str_of_float_zero str_of_int_small str_of_int_more
        lower_bool bool_of_int_def bool_of_float_def)

lemma conversions_negative:
  "conversions dmax ''42'' ''3.14'' c (- 7) (Finite True 5629499534213120 (- 51)) =
     [Inr ''String to int: 42'', Inr ''String to float: 3.14'', string_to_bool c,
      Inr ''Int to string: -7'', Inr ''Int to float: -7.0'', Inr ''Int to bool: true'',
      Inr ''Float to string: -2.5'', Inr ''Float to int: -2'', Inr ''Float to bool: true'']"
  by (simp add: conversions_def fmt_eval int_of_str_42 float_of_str_3_14 float_of_int_neg_7
        int_of_float_neg_2_5 str_of_float_3_14 str_of_float_neg str_of_float_2_5 str_of_float_7
        str_of_int_small str_of_int_more lower_bool bool_of_int_def bool_of_float_def)

lemma solve_zero:
  "solve \<lparr>stdin = [''42'', ''3.14'', ''True'', ''0'', ''0.0''], stdout = [],
                 int_max_str_digits = 4300\<rparr> =
     (Inr (),
      \<lparr>stdin = [],
       stdout = [''String to int: 42'', ''String to float: 3.14'', ''String to bool: true'',
                 ''Int to string: 0'', ''Int to float: 0.0'', ''Int to bool: false'',
                 ''Float to string: 0.0'', ''Float to int: 0'', ''Float to bool: false''],
       int_max_str_digits = 4300\<rparr>)"
proof -
  have "lower ''True'' = ''true''" by (simp add: text_eval)
  then show ?thesis
  by (simp add: solve_five [where ?l1.0 = "''42''" and ?l2.0 = "''3.14''" and ?l3.0 = "''True''"
                 and ?l4.0 = "''0''" and ?l5.0 = "''0.0''" and rest = "[]"]
        int_of_str_zero float_of_str_zero strip_example conversions_zero string_to_bool_eq)
qed

lemma solve_negative:
  "solve \<lparr>stdin = [''42'', ''3.14'', ''True'', ''-7'', ''-2.5''], stdout = [],
                 int_max_str_digits = 4300\<rparr> =
     (Inr (),
      \<lparr>stdin = [],
       stdout = [''String to int: 42'', ''String to float: 3.14'', ''String to bool: true'',
                 ''Int to string: -7'', ''Int to float: -7.0'', ''Int to bool: true'',
                 ''Float to string: -2.5'', ''Float to int: -2'', ''Float to bool: true''],
       int_max_str_digits = 4300\<rparr>)"
proof -
  have "lower ''True'' = ''true''" by (simp add: text_eval)
  then show ?thesis
  by (simp add: solve_five [where ?l1.0 = "''42''" and ?l2.0 = "''3.14''" and ?l3.0 = "''True''"
                 and ?l4.0 = "''-7''" and ?l5.0 = "''-2.5''" and rest = "[]"]
        int_of_str_neg_7 float_of_str_neg_2_5 strip_example conversions_negative string_to_bool_eq)
qed

section \<open>String to bool\<close>

lemma solve_example_bool:
  "solve \<lparr>stdin = [''42'', ''3.14'', s, ''7'', ''2.5''], stdout = [],
                 int_max_str_digits = 4300\<rparr> =
     (Inr (),
      \<lparr>stdin = [],
       stdout = [''String to int: 42'', ''String to float: 3.14'',
                 ''String to bool: '' @ (if lower (strip s) = ''true'' then ''true'' else ''false''),
                 ''Int to string: 7'', ''Int to float: 7.0'', ''Int to bool: true'',
                 ''Float to string: 2.5'', ''Float to int: 2'', ''Float to bool: true''],
       int_max_str_digits = 4300\<rparr>)"
proof -
  have "conversions 4300 ''42'' ''3.14'' (strip s) 7 (Finite False 5629499534213120 (- 51)) =
     [Inr ''String to int: 42'', Inr ''String to float: 3.14'', string_to_bool (strip s),
      Inr ''Int to string: 7'', Inr ''Int to float: 7.0'', Inr ''Int to bool: true'',
      Inr ''Float to string: 2.5'', Inr ''Float to int: 2'', Inr ''Float to bool: true'']"
    using conversions_example by (simp add: conversions_def)
  then show ?thesis
    by (simp add: solve_five [where ?l1.0 = "''42''" and ?l2.0 = "''3.14''" and ?l3.0 = s
                 and ?l4.0 = "''7''" and ?l5.0 = "''2.5''" and rest = "[]"]
        int_of_str_7 float_of_str_2_5 strip_example string_to_bool_eq)
qed

lemma printed_example_bool:
  "printed \<lparr>stdin = [''42'', ''3.14'', s, ''7'', ''2.5''], stdout = [],
                   int_max_str_digits = 4300\<rparr> =
     [''String to int: 42'', ''String to float: 3.14'',
      ''String to bool: '' @ (if lower (strip s) = ''true'' then ''true'' else ''false''),
      ''Int to string: 7'', ''Int to float: 7.0'', ''Int to bool: true'',
      ''Float to string: 2.5'', ''Float to int: 2'', ''Float to bool: true'']"
  by (simp add: printed_def solve_example_bool)

lemma strip_bool_examples:
  "strip ''TRUE'' = ''TRUE''" "strip ''true'' = ''true''" "strip ''TrUe'' = ''TrUe''"
  "strip ''false'' = ''false''" "strip ''yes'' = ''yes''" "strip [] = []"
  "strip '' True  '' = ''True''"
  by (simp_all add: text_eval)

text \<open>
  C2. Whenever a run gets as far as its third output line, that line is
  \<^verbatim>\<open>String to bool: true\<close> if the third input line, stripped and lower-cased, equals
  \<^verbatim>\<open>true\<close>, and \<^verbatim>\<open>String to bool: false\<close> for every other text: always one of the two
  lower-case words. The stripped texts that lower-case to \<^verbatim>\<open>true\<close> are exactly the
  sixteen spellings of the word in upper and lower case.
\<close>

theorem string_to_bool_line:
  assumes "2 < length (printed w)"
  shows "printed w ! 2 =
           ''String to bool: '' @
           (if lower (strip (stdin w ! 2)) = ''true'' then ''true'' else ''false'')
         \<and> (lower (strip (stdin w ! 2)) = ''true'' \<longleftrightarrow>
              (\<exists>a b c d. strip (stdin w ! 2) = [a, b, c, d]
                 \<and> a \<in> {CHR ''t'', CHR ''T''} \<and> b \<in> {CHR ''r'', CHR ''R''}
                 \<and> c \<in> {CHR ''u'', CHR ''U''} \<and> d \<in> {CHR ''e'', CHR ''E''}))"
proof -
  from assms obtain l1 l2 l3 l4 l5 rest n x where
    s: "stdin w = l1 # l2 # l3 # l4 # l5 # rest"
    and c: "conversions (int_max_str_digits w) (strip l1) (strip l2) (strip l3) n x ! 2 = Inr (printed w ! 2)"
    by (rule printed_nth)
  from c have "printed w ! 2 =
      ''String to bool: '' @ (if lower (strip l3) = ''true'' then ''true'' else ''false'')"
    by (simp add: conversions_nth string_to_bool_eq)
  with s show ?thesis by (simp add: lower_eq_true)
qed

theorem string_to_bool_line_witness:
  "(let out = (\<lambda>s. printed \<lparr>stdin = [''42'', ''3.14'', s, ''7'', ''2.5''], stdout = [],
                                           int_max_str_digits = 4300\<rparr>)
    in 2 < length (out ''TRUE'') \<and> out ''TRUE'' ! 2 = ''String to bool: true''
       \<and> out ''true'' ! 2 = ''String to bool: true''
       \<and> out ''TrUe'' ! 2 = ''String to bool: true''
       \<and> out '' True  '' ! 2 = ''String to bool: true''
       \<and> out ''false'' ! 2 = ''String to bool: false''
       \<and> out ''yes'' ! 2 = ''String to bool: false''
       \<and> out [] ! 2 = ''String to bool: false'')"
proof -
  let ?w = "\<lambda>s. \<lparr>stdin = [''42'', ''3.14'', s, ''7'', ''2.5''], stdout = [],
                                int_max_str_digits = 4300\<rparr>"
  have len: "2 < length (printed (?w s))" for s
    by (simp add: printed_example_bool)
  show ?thesis
    using string_to_bool_line [OF len [of "''TRUE''"]] string_to_bool_line [OF len [of "''true''"]]
      string_to_bool_line [OF len [of "''TrUe''"]] string_to_bool_line [OF len [of "'' True  ''"]]
      string_to_bool_line [OF len [of "''false''"]] string_to_bool_line [OF len [of "''yes''"]]
      string_to_bool_line [OF len [of "[]"]] len [of "''TRUE''"]
    by (simp add: strip_bool_examples Let_def)
qed

section \<open>Int to bool and float to bool\<close>

text \<open>
  C3. Whenever a run gets as far as its sixth output line, the fourth input line has
  been read as an integer \<open>n\<close> and the line is \<^verbatim>\<open>Int to bool: false\<close> if \<open>n = 0\<close> and
  \<^verbatim>\<open>Int to bool: true\<close> for every other \<open>n\<close>, negative ones included. Whenever it gets as far
  as its ninth line, the fifth input line has been read as a float \<open>x\<close> and the line is
  \<^verbatim>\<open>Float to bool: false\<close> if \<open>x\<close> is zero (of either sign) and \<^verbatim>\<open>Float to bool: true\<close> for
  every other \<open>x\<close>.
\<close>

theorem bool_lines:
  "(5 < length (printed w) \<longrightarrow>
      (\<exists>n. int_of_str (int_max_str_digits w) (stdin w ! 3) = Inr n
          \<and> printed w ! 5 = ''Int to bool: '' @ (if n = 0 then ''false'' else ''true'')))
   \<and> (8 < length (printed w) \<longrightarrow>
      (\<exists>x. float_of_str (stdin w ! 4) = Inr x
          \<and> printed w ! 8 = ''Float to bool: '' @ (if is_zero x then ''false'' else ''true'')))"
proof (intro conjI impI)
  assume "5 < length (printed w)"
  then obtain l1 l2 l3 l4 l5 rest n x where
    s: "stdin w = l1 # l2 # l3 # l4 # l5 # rest" and n: "int_of_str (int_max_str_digits w) l4 = Inr n"
    and c: "conversions (int_max_str_digits w) (strip l1) (strip l2) (strip l3) n x ! 5 = Inr (printed w ! 5)"
    by (rule printed_nth)
  from c have "printed w ! 5 = ''Int to bool: '' @ (if n = 0 then ''false'' else ''true'')"
    by (simp add: conversions_nth int_to_bool_eq)
  with s n show "\<exists>n. int_of_str (int_max_str_digits w) (stdin w ! 3) = Inr n
          \<and> printed w ! 5 = ''Int to bool: '' @ (if n = 0 then ''false'' else ''true'')"
    by (simp add: numeral_3_eq_3)
next
  assume "8 < length (printed w)"
  then obtain l1 l2 l3 l4 l5 rest n x where
    s: "stdin w = l1 # l2 # l3 # l4 # l5 # rest" and x: "float_of_str l5 = Inr x"
    and c: "conversions (int_max_str_digits w) (strip l1) (strip l2) (strip l3) n x ! 8 = Inr (printed w ! 8)"
    by (rule printed_nth)
  from c have "printed w ! 8 = ''Float to bool: '' @ (if is_zero x then ''false'' else ''true'')"
    by (simp add: conversions_nth float_to_bool_eq)
  with s x show "\<exists>x. float_of_str (stdin w ! 4) = Inr x
          \<and> printed w ! 8 = ''Float to bool: '' @ (if is_zero x then ''false'' else ''true'')"
    by (simp add: numeral_eq_Suc)
qed

theorem bool_lines_witness:
  "(let zero = printed \<lparr>stdin = [''42'', ''3.14'', ''True'', ''0'', ''0.0''], stdout = [],
                               int_max_str_digits = 4300\<rparr>;
        negative = printed \<lparr>stdin = [''42'', ''3.14'', ''True'', ''-7'', ''-2.5''], stdout = [],
                                   int_max_str_digits = 4300\<rparr>
    in 8 < length zero \<and> zero ! 5 = ''Int to bool: false'' \<and> zero ! 8 = ''Float to bool: false''
       \<and> 8 < length negative \<and> negative ! 5 = ''Int to bool: true''
       \<and> negative ! 8 = ''Float to bool: true'')"
  using bool_lines [of "\<lparr>stdin = [''42'', ''3.14'', ''True'', ''0'', ''0.0''], stdout = [],
                                int_max_str_digits = 4300\<rparr>"]
    bool_lines [of "\<lparr>stdin = [''42'', ''3.14'', ''True'', ''-7'', ''-2.5''], stdout = [],
                            int_max_str_digits = 4300\<rparr>"]
  by (simp add: printed_def solve_zero solve_negative Let_def)

section \<open>Float to int\<close>

lemma int_of_float_truncates:
  assumes "float_value x = Some v"
  shows "int_of_float x = Inr (truncate_toward_zero v)"
proof (cases x)
  case (Finite s m e)
  define a where "a = (if 0 \<le> e then m * 2 ^ nat e else m div 2 ^ nat (- e))"
  define q :: rat where "q = of_nat m * 2 powi e"
  have q0: "0 \<le> q" by (simp add: q_def)
  have fl: "\<lfloor>q\<rfloor> = int a"
  proof (cases "0 \<le> e")
    case True
    then have "q = of_int (int (m * 2 ^ nat e))"
      by (simp add: q_def power_int_def)
    then have "\<lfloor>q\<rfloor> = int (m * 2 ^ nat e)" by (simp only: floor_of_int)
    with True show ?thesis by (simp add: a_def)
  next
    case False
    then have "q = of_nat m / of_nat (2 ^ nat (- e))"
      by (simp add: q_def power_int_def field_simps)
    then have "\<lfloor>q\<rfloor> = int (m div 2 ^ nat (- e))"
      by (simp only: floor_divide_of_nat_eq)
    with False show ?thesis by (simp add: a_def)
  qed
  have i: "int_of_float x = Inr (if s then - int a else int a)"
    by (simp add: Finite int_of_float_def a_def Let_def)
  have v: "v = (if s then - q else q)"
    using assms by (auto simp add: Finite q_def)
  show ?thesis
  proof (cases s)
    case False
    with v q0 fl i show ?thesis by (simp add: truncate_toward_zero_def)
  next
    case True
    then have vq: "v = - q" using v by simp
    show ?thesis
    proof (cases "q = 0")
      case True
      with vq fl i \<open>s\<close> show ?thesis by (simp add: truncate_toward_zero_def)
    next
      case False
      with q0 have "\<not> 0 \<le> v" using vq by simp
      then have "truncate_toward_zero v = \<lceil>- q\<rceil>" by (simp add: truncate_toward_zero_def vq)
      also have "\<dots> = - \<lfloor>q\<rfloor>" by (simp add: ceiling_minus)
      finally show ?thesis using fl i \<open>s\<close> by simp
    qed
  qed
next
  case (Infinite s)
  with assms show ?thesis by simp
next
  case NaN
  with assms show ?thesis by simp
qed

lemma int_of_float_finite:
  "(\<exists>n. int_of_float x = Inr n) \<longleftrightarrow> (\<exists>v. float_value x = Some v)"
  by (cases x) (simp_all add: int_of_float_def Let_def)

lemma float_of_str_2_9: "float_of_str ''2.9'' = Inr (Finite False 6530219459687219 (- 51))"
  by (simp add: text_eval float_eval cong: let_weak_cong)

lemma float_of_str_neg_2_9: "float_of_str ''-2.9'' = Inr (Finite True 6530219459687219 (- 51))"
  by (simp add: text_eval float_eval cong: let_weak_cong)

lemma int_of_float_2_9:
  "int_of_float (Finite False 6530219459687219 (- 51)) = Inr 2"
  "int_of_float (Finite True 6530219459687219 (- 51)) = Inr (- 2)"
  by (simp_all add: float_eval)

lemma solve_success:
  assumes "stdin w = l1 # l2 # l3 # l4 # l5 # rest"
    and "int_of_str (int_max_str_digits w) (strip l1) = Inr a" and "float_of_str (strip l2) = Inr b"
    and "int_of_str (int_max_str_digits w) l4 = Inr n" and "float_of_str l5 = Inr x"
    and "float_of_int n = Inr y" and "int_of_float x = Inr z"
  shows "solve w =
     (Inr (),
      w\<lparr>stdin := rest,
        stdout := stdout w @
          [''String to int: '' @ str_of_int a,
           ''String to float: '' @ str_of_float b,
           ''String to bool: '' @ (if lower (strip l3) = ''true'' then ''true'' else ''false''),
           ''Int to string: '' @ str_of_int n,
           ''Int to float: '' @ str_of_float y,
           ''Int to bool: '' @ (if n = 0 then ''false'' else ''true''),
           ''Float to string: '' @ str_of_float x,
           ''Float to int: '' @ str_of_int z,
           ''Float to bool: '' @ (if is_zero x then ''false'' else ''true'')]\<rparr>)"
proof -
  have "conversions (int_max_str_digits w) (strip l1) (strip l2) (strip l3) n x =
          [Inr (''String to int: '' @ str_of_int a),
           Inr (''String to float: '' @ str_of_float b),
           Inr (''String to bool: '' @ (if lower (strip l3) = ''true'' then ''true'' else ''false'')),
           Inr (''Int to string: '' @ str_of_int n),
           Inr (''Int to float: '' @ str_of_float y),
           Inr (''Int to bool: '' @ (if n = 0 then ''false'' else ''true'')),
           Inr (''Float to string: '' @ str_of_float x),
           Inr (''Float to int: '' @ str_of_int z),
           Inr (''Float to bool: '' @ (if is_zero x then ''false'' else ''true''))]"
    using assms(2,3,6,7)
    by (simp add: conversions_def string_to_int_def string_to_float_def int_to_float_def
          float_to_int_def fmt_def string_to_bool_eq int_to_bool_eq float_to_bool_eq
          int_to_string_def float_to_string_def)
  then show ?thesis
    using solve_parsed [OF assms(1,4,5)] by (simp add: lines_of_def result_of_def)
qed

lemma printed_2_9:
  "printed \<lparr>stdin = [''42'', ''3.14'', ''True'', ''7'', ''2.9''], stdout = [],
                   int_max_str_digits = 4300\<rparr> ! 7
     = ''Float to int: 2''"
  "printed \<lparr>stdin = [''42'', ''3.14'', ''True'', ''7'', ''-2.9''], stdout = [],
                   int_max_str_digits = 4300\<rparr> ! 7
     = ''Float to int: -2''"
  "length (printed \<lparr>stdin = [''42'', ''3.14'', ''True'', ''7'', ''2.9''], stdout = [],
                           int_max_str_digits = 4300\<rparr>) = 9"
  "length (printed \<lparr>stdin = [''42'', ''3.14'', ''True'', ''7'', ''-2.9''], stdout = [],
                           int_max_str_digits = 4300\<rparr>) = 9"
  by (simp_all add: printed_def
        solve_success [where ?l1.0 = "''42''" and ?l2.0 = "''3.14''" and ?l3.0 = "''True''"
          and ?l4.0 = "''7''" and rest = "[]", OF _ _ _ int_of_str_7 _ float_of_int_7]
        strip_example int_of_str_42 float_of_str_3_14 float_of_str_2_9 float_of_str_neg_2_9
        int_of_float_2_9 str_of_int_small str_of_int_more)

text \<open>
  C4. \<^verbatim>\<open>int(x)\<close> of a float with the exact value \<open>v\<close> is \<open>v\<close> truncated toward zero: the
  floor of a value that is not negative, the ceiling of a negative one. Whenever a run
  gets as far as its eighth output line, the fifth input line has been read as a finite
  float and the line is \<^verbatim>\<open>Float to int:\<close> with the truncated value of that float.
\<close>

theorem float_to_int_truncates:
  "(float_value x = Some v \<longrightarrow> int_of_float x = Inr (truncate_toward_zero v))
   \<and> (7 < length (printed w) \<longrightarrow>
        (\<exists>x5 v5. float_of_str (stdin w ! 4) = Inr x5 \<and> float_value x5 = Some v5
           \<and> printed w ! 7 = ''Float to int: '' @ str_of_int (truncate_toward_zero v5)))"
proof (intro conjI impI)
  assume "float_value x = Some v"
  then show "int_of_float x = Inr (truncate_toward_zero v)" by (rule int_of_float_truncates)
next
  assume "7 < length (printed w)"
  then obtain l1 l2 l3 l4 l5 rest n x5 where
    s: "stdin w = l1 # l2 # l3 # l4 # l5 # rest" and x: "float_of_str l5 = Inr x5"
    and c: "conversions (int_max_str_digits w) (strip l1) (strip l2) (strip l3) n x5 ! 7 = Inr (printed w ! 7)"
    by (rule printed_nth)
  from c obtain z where z: "int_of_float x5 = Inr z"
    and p: "printed w ! 7 = ''Float to int: '' @ str_of_int z"
    by (cases "int_of_float x5") (auto simp: conversions_nth float_to_int_def fmt_def)
  from z obtain v5 where v: "float_value x5 = Some v5"
    using int_of_float_finite [of x5] by blast
  then have "z = truncate_toward_zero v5" using z int_of_float_truncates [OF v] by simp
  with s x v p show "\<exists>x5 v5. float_of_str (stdin w ! 4) = Inr x5 \<and> float_value x5 = Some v5
           \<and> printed w ! 7 = ''Float to int: '' @ str_of_int (truncate_toward_zero v5)"
    by (simp add: numeral_eq_Suc)
qed

theorem float_to_int_truncates_witness:
  "(let x = Finite False 6530219459687219 (- 51); y = Finite True 6530219459687219 (- 51);
        pos = printed \<lparr>stdin = [''42'', ''3.14'', ''True'', ''7'', ''2.9''], stdout = [],
                              int_max_str_digits = 4300\<rparr>;
        neg = printed \<lparr>stdin = [''42'', ''3.14'', ''True'', ''7'', ''-2.9''], stdout = [],
                              int_max_str_digits = 4300\<rparr>
    in float_of_str ''2.9'' = Inr x \<and> float_value x = Some (6530219459687219 / 2 ^ 51)
       \<and> int_of_float x = Inr 2
       \<and> float_of_str ''-2.9'' = Inr y \<and> float_value y = Some (- (6530219459687219 / 2 ^ 51))
       \<and> int_of_float y = Inr (- 2)
       \<and> 7 < length pos \<and> pos ! 7 = ''Float to int: 2''
       \<and> 7 < length neg \<and> neg ! 7 = ''Float to int: -2'')"
proof -
  have v: "float_value (Finite False 6530219459687219 (- 51)) = Some (6530219459687219 / 2 ^ 51)"
    "float_value (Finite True 6530219459687219 (- 51)) = Some (- (6530219459687219 / 2 ^ 51))"
    by (simp_all add: power_int_def field_simps)
  show ?thesis
    using float_to_int_truncates [of "Finite False 6530219459687219 (- 51)"
        "6530219459687219 / 2 ^ 51"
        "\<lparr>stdin = [''42'', ''3.14'', ''True'', ''7'', ''2.9''], stdout = [],
                 int_max_str_digits = 4300\<rparr>"]
      float_to_int_truncates [of "Finite True 6530219459687219 (- 51)"
        "- (6530219459687219 / 2 ^ 51)"
        "\<lparr>stdin = [''42'', ''3.14'', ''True'', ''7'', ''-2.9''], stdout = [],
                 int_max_str_digits = 4300\<rparr>"]
    by (simp add: Let_def v printed_2_9 float_of_str_2_9 float_of_str_neg_2_9 int_of_float_2_9
          del: float_value.simps)
qed

section \<open>Int to float and back\<close>

lemma bit_length_bounds:
  "0 < n \<Longrightarrow> 2 ^ (bit_length n - 1) \<le> n \<and> n < 2 ^ bit_length n"
proof (induction n rule: bit_length.induct)
  case (1 n)
  show ?case
  proof (cases "n div 2 = 0")
    case True
    with "1.prems" have "n = 1" by (simp add: div_eq_0_iff)
    then show ?thesis by (simp add: bit_length.simps [of "Suc 0"] bit_length.simps [of 0])
  next
    case False
    then have pos: "0 < n div 2" by simp
    with "1.IH" "1.prems" have ih: "2 ^ (bit_length (n div 2) - 1) \<le> n div 2"
      "n div 2 < 2 ^ bit_length (n div 2)" by simp_all
    have bl: "bit_length n = Suc (bit_length (n div 2))"
      using "1.prems" by (simp add: bit_length.simps [of n])
    have b1: "0 < bit_length (n div 2)"
      using pos by (simp add: bit_length.simps [of "n div 2"])
    then obtain j where j: "bit_length (n div 2) = Suc j" by (cases "bit_length (n div 2)") auto
    from ih have "2 * 2 ^ j \<le> n" using j by (simp; arith)
    moreover from ih have "n < 2 * 2 ^ Suc j" using j by (simp; arith)
    ultimately show ?thesis by (simp add: bl j)
  qed
qed

lemma bit_length_pos: "0 < n \<Longrightarrow> 0 < bit_length n"
  by (simp add: bit_length.simps [of n])

lemma bit_length_1: "bit_length (Suc 0) = Suc 0"
  by (simp add: bit_length.simps [of "Suc 0"] bit_length.simps [of 0])

lemma round_half_even_exact: "0 < d \<Longrightarrow> round_half_even (a * d) d = a"
  by (simp add: round_half_even_def)


lemma round_to_double_small:
  assumes "0 < p" and "p < 2 ^ 53"
  shows "round_to_double s p 1 =
           Finite s (p * 2 ^ (53 - bit_length p)) (int (bit_length p) - 53)"
proof -
  define b where "b = bit_length p"
  have lo: "2 ^ (b - 1) \<le> p" and hi: "p < 2 ^ b"
    using bit_length_bounds [OF assms(1)] by (simp_all add: b_def)
  have b1: "1 \<le> b" using bit_length_pos [OF assms(1)] by (simp add: b_def)
  have b53: "b \<le> 53"
  proof (rule ccontr)
    assume "\<not> b \<le> 53"
    then have "53 \<le> b - 1" by simp
    then have "(2::nat) ^ 53 \<le> 2 ^ (b - 1)" by (rule power_increasing) simp_all
    with lo assms(2) show False by simp
  qed
  have e0: "max (- 1074) (int (bit_length p) - int (bit_length (Suc 0)) - 53) = int b - 54"
    using b1 by (simp add: bit_length_1 b_def [symmetric])
  have s0: "scale 2 p (Suc 0) (int b - 54) = (p * 2 ^ (54 - b), Suc 0)"
    using b53 by (simp add: scale_def nat_diff_distrib')
  have "(2::nat) ^ 53 = 2 ^ (b - 1) * 2 ^ (54 - b)"
    using b1 b53 by (simp add: power_add [symmetric])
  also have "\<dots> \<le> p * 2 ^ (54 - b)" using lo by simp
  finally have c: "2 ^ 53 * Suc 0 \<le> p * 2 ^ (54 - b)" by simp
  have s1: "scale 2 p (Suc 0) (int b - 53) = (p * 2 ^ (53 - b), Suc 0)"
  proof (cases "b = 53")
    case True
    then show ?thesis by (simp add: scale_def)
  next
    case False
    with b53 have "b < 53" by simp
    then show ?thesis by (simp add: scale_def nat_diff_distrib')
  qed
  have r: "round_half_even (p * 2 ^ (53 - b)) (Suc 0) = p * 2 ^ (53 - b)"
    by (simp add: round_half_even_def)
  have "p * 2 ^ (53 - b) < 2 ^ b * 2 ^ (53 - b)" using hi by simp
  also have "\<dots> = 2 ^ 53" using b53 by (simp add: power_add [symmetric])
  finally have m: "p * 2 ^ (53 - b) \<noteq> 2 ^ 53" by simp
  have e: "\<not> 971 < int b - 53" using b53 by simp
  show ?thesis
    unfolding round_to_double_def One_nat_def e0 Let_def s0 prod.case
    using assms(1) c m e
    by (simp add: s1 r b_def [symmetric])
qed

lemma bit_length_2_53: "bit_length (2 ^ 53) = 54"
  by (simp add: bit_length.simps)

lemma round_to_double_2_53: "round_to_double s (2 ^ 53) 1 = Finite s (2 ^ 52) 1"
proof -
  have b: "bit_length 9007199254740992 = 54" using bit_length_2_53 by simp
  show ?thesis
    by (simp add: round_to_double_def b bit_length_1 scale_def round_half_even_def Let_def
          cong: let_weak_cong)
qed

lemma int_of_float_scaled:
  assumes "b \<le> 53"
  shows "int_of_float (Finite s (p * 2 ^ (53 - b)) (int b - 53)) = Inr (if s then - int p else int p)"
proof (cases "b = 53")
  case True
  then show ?thesis by (simp add: int_of_float_def)
next
  case False
  with assms have "b < 53" by simp
  then show ?thesis by (simp add: int_of_float_def Let_def nat_diff_distrib')
qed

lemma float_of_int_exact:
  assumes "\<bar>n\<bar> \<le> 2 ^ 53"
  shows "\<exists>x. float_of_int n = Inr x \<and> int_of_float x = Inr n
             \<and> float_value x = Some (of_int n)"
proof -
  define p where "p = nat \<bar>n\<bar>"
  have p: "p \<le> 2 ^ 53" using assms by (simp add: p_def nat_le_iff)
  have n: "n = (if n < 0 then - int p else int p)" by (simp add: p_def)
  consider "p = 0" | "0 < p" "p < 2 ^ 53" | "p = 2 ^ 53" using p by linarith
  then show ?thesis
  proof cases
    case 1
    then have "n = 0" by (simp add: p_def)
    then show ?thesis
      by (simp add: float_of_int_def round_to_double_def int_of_float_def)
  next
    case 2
    define b where "b = bit_length p"
    have b53: "b \<le> 53"
    proof (rule ccontr)
      assume "\<not> b \<le> 53"
      then have "53 \<le> b - 1" by simp
      then have "(2::nat) ^ 53 \<le> 2 ^ (b - 1)" by (rule power_increasing) simp_all
      with bit_length_bounds [OF 2(1)] 2(2) show False by (simp add: b_def)
    qed
    let ?x = "Finite (n < 0) (p * 2 ^ (53 - b)) (int b - 53)"
    have f: "float_of_int n = Inr ?x"
      using round_to_double_small [OF 2, of "n < 0"]
      by (simp add: float_of_int_def p_def [symmetric] b_def)
    have i: "int_of_float ?x = Inr n"
      using int_of_float_scaled [OF b53, of "n < 0" p] n by simp
    have "(of_nat (p * 2 ^ (53 - b)) :: rat) * 2 powi (int b - 53) = of_nat p"
    proof -
      have "int b - 53 = - int (53 - b)" using b53 by simp
      then have "(2::rat) powi (int b - 53) = inverse (2 ^ (53 - b))"
        by (simp only: power_int_minus power_int_of_nat)
      then show ?thesis by simp
    qed
    then have v: "float_value ?x = Some (of_int n)"
      using n by (auto simp add: p_def)
    from f i v show ?thesis by blast
  next
    case 3
    let ?x = "Finite (n < 0) (2 ^ 52) 1"
    have f: "float_of_int n = Inr ?x"
      using round_to_double_2_53 [of "n < 0"] 3
      by (simp add: float_of_int_def p_def [symmetric])
    have "\<bar>n\<bar> = 2 ^ 53" using 3 by (simp add: p_def)
    then have nn: "n = (if n < 0 then - (2 ^ 53) else 2 ^ 53)" by (simp; arith)
    have i: "int_of_float ?x = Inr n"
      by (subst (2) nn) (simp add: int_of_float_def)
    have v: "float_value ?x = Some (of_int n)"
      by (subst (2) nn) simp
    from f i v show ?thesis by blast
  qed
qed


text \<open>
  C5. For every integer \<open>n\<close> with \<open>\<bar>n\<bar> \<le> 2\<^sup>5\<^sup>3\<close>, \<^verbatim>\<open>float(n)\<close> succeeds, and \<^verbatim>\<open>int\<close> of the
  float it returns is \<open>n\<close> again: the round trip int to float to int is the identity on
  that range. The float holds \<open>n\<close> exactly.
\<close>

theorem int_float_int_roundtrip:
  assumes "\<bar>n\<bar> \<le> 2 ^ 53"
  shows "\<exists>x. float_of_int n = Inr x \<and> int_of_float x = Inr n \<and> float_value x = Some (of_int n)"
  using assms by (rule float_of_int_exact)

theorem int_float_int_roundtrip_witness:
  "\<bar>7 :: int\<bar> \<le> 2 ^ 53
   \<and> (\<exists>x. float_of_int 7 = Inr x \<and> int_of_float x = Inr 7 \<and> float_value x = Some (of_int 7))
   \<and> \<bar>- (2 ^ 53) :: int\<bar> \<le> 2 ^ 53
   \<and> (\<exists>x. float_of_int (- (2 ^ 53)) = Inr x \<and> int_of_float x = Inr (- (2 ^ 53))
          \<and> float_value x = Some (of_int (- (2 ^ 53))))"
proof -
  have a: "\<bar>7 :: int\<bar> \<le> 2 ^ 53" by simp
  have b: "\<bar>- (2 ^ 53) :: int\<bar> \<le> 2 ^ 53" by simp
  show ?thesis
    using a b int_float_int_roundtrip [OF a] int_float_int_roundtrip [OF b] by blast
qed

section \<open>Malformed numeric text\<close>

lemma int_of_str_error: "int_of_str dmax s = Inl e \<Longrightarrow> e = ValueError"
  by (auto simp: int_of_str_def Let_def split: prod.splits option.splits if_splits)

lemma float_of_str_error: "float_of_str s = Inl e \<Longrightarrow> e = ValueError"
  by (auto simp: float_of_str_def Let_def split: prod.splits option.splits if_splits)

lemma lines_of_simps:
  "lines_of [] = []" "lines_of (Inl e # rs) = []" "lines_of (Inr s # rs) = s # lines_of rs"
  by (simp_all add: lines_of_def)

lemma result_of_simps:
  "result_of [] = Inr ()" "result_of (Inl e # rs) = Inl e" "result_of (Inr s # rs) = result_of rs"
  by (simp_all add: result_of_def)

lemma int_of_str_abc: "int_of_str dmax ''abc'' = Inl ValueError"
  by (simp add: text_eval)

lemma float_of_str_abc: "float_of_str ''abc'' = Inl ValueError"
  by (simp add: text_eval float_eval cong: let_weak_cong)

lemma strip_abc: "strip ''abc'' = ''abc''"
  by (simp add: text_eval)

lemma malformed_first:
  assumes "stdin w = l1 # l2 # l3 # l4 # l5 # rest"
    and "int_of_str (int_max_str_digits w) l4 = Inr n" and "float_of_str l5 = Inr x"
    and "int_of_str (int_max_str_digits w) (strip l1) = Inl e"
  shows "solve w = (Inl e, w\<lparr>stdin := rest\<rparr>)"
  using solve_parsed [OF assms(1-3)] assms(4)
  by (simp add: conversions_def string_to_int_def fmt_def lines_of_simps result_of_simps)

lemma malformed_second:
  assumes "stdin w = l1 # l2 # l3 # l4 # l5 # rest"
    and "int_of_str (int_max_str_digits w) l4 = Inr n" and "float_of_str l5 = Inr x"
    and "int_of_str (int_max_str_digits w) (strip l1) = Inr a" and "float_of_str (strip l2) = Inl e"
  shows "solve w =
     (Inl e, w\<lparr>stdin := rest, stdout := stdout w @ [''String to int: '' @ str_of_int a]\<rparr>)"
  using solve_parsed [OF assms(1-3)] assms(4,5)
  by (simp add: conversions_def string_to_int_def string_to_float_def fmt_def lines_of_simps
        result_of_simps)

lemma malformed_fails:
  assumes "stdin w = l1 # l2 # l3 # l4 # l5 # rest"
    and "isl (int_of_str (int_max_str_digits w) (strip l1)) \<or> isl (float_of_str (strip l2))
         \<or> isl (int_of_str (int_max_str_digits w) l4) \<or> isl (float_of_str l5)"
  shows "outcome w = Inl ValueError \<and> length (printed w) \<le> 1"
proof (cases "int_of_str (int_max_str_digits w) l4")
  case (Inl e)
  then have "e = ValueError" by (rule int_of_str_error)
  with Inl assms(1) show ?thesis by (simp add: printed_unparsed)
next
  case n: (Inr n)
  show ?thesis
  proof (cases "float_of_str l5")
    case (Inl e)
    then have "e = ValueError" by (rule float_of_str_error)
    with Inl n assms(1) show ?thesis by (simp add: printed_unparsed)
  next
    case x: (Inr x)
    show ?thesis
    proof (cases "int_of_str (int_max_str_digits w) (strip l1)")
      case (Inl e)
      then have "e = ValueError" by (rule int_of_str_error)
      with Inl show ?thesis
        using malformed_first [OF assms(1) n x Inl] by (simp add: printed_def outcome_def)
    next
      case a: (Inr a)
      with n x assms(2) have "isl (float_of_str (strip l2))" by simp
      then obtain e where e: "float_of_str (strip l2) = Inl e"
        by (cases "float_of_str (strip l2)") simp_all
      then have "e = ValueError" by (rule float_of_str_error)
      with e show ?thesis
        using malformed_second [OF assms(1) n x a e] by (simp add: printed_def outcome_def)
    qed
  qed
qed

text \<open>
  C6. If a line that must be numeric is there and is malformed (the first or the fourth
  as an int, which includes a literal of more digits than the limit in force allows, the
  second or the fifth as a float), the run ends in an exception: never
  normally, and with at most the first output line written, so no default value is put
  in its place and no later conversion is printed. With all five lines there, the
  exception is the \<^verbatim>\<open>ValueError\<close> of the failed parse.
\<close>

theorem malformed_is_fatal:
  assumes "malformed_numeric (int_max_str_digits w) (stdin w)"
  shows "(\<exists>e. outcome w = Inl e) \<and> length (printed w) \<le> 1
         \<and> (5 \<le> length (stdin w) \<longrightarrow> outcome w = Inl ValueError)"
proof (cases "5 \<le> length (stdin w)")
  case False
  then have "length (stdin w) < 5" by simp
  then show ?thesis using printed_short [of w] by simp
next
  case True
  then obtain l1 l2 l3 l4 l5 rest where s: "stdin w = l1 # l2 # l3 # l4 # l5 # rest"
    by (rule long_list_cases)
  with assms have "isl (int_of_str (int_max_str_digits w) (strip l1)) \<or> isl (float_of_str (strip l2))
         \<or> isl (int_of_str (int_max_str_digits w) l4) \<or> isl (float_of_str l5)"
    by (simp add: malformed_numeric_def numeral_eq_Suc)
  with s have "outcome w = Inl ValueError \<and> length (printed w) \<le> 1"
    by (rule malformed_fails)
  then show ?thesis by simp
qed

theorem malformed_is_fatal_witness:
  "malformed_numeric 4300 [''abc'', ''3.14'', ''True'', ''7'', ''2.5'']
   \<and> outcome \<lparr>stdin = [''abc'', ''3.14'', ''True'', ''7'', ''2.5''], stdout = [],
                          int_max_str_digits = 4300\<rparr> = Inl ValueError
   \<and> printed \<lparr>stdin = [''abc'', ''3.14'', ''True'', ''7'', ''2.5''], stdout = [],
                          int_max_str_digits = 4300\<rparr> = []
   \<and> malformed_numeric 4300 [''42'', ''3.14'', ''True'', ''abc'', ''2.5'']
   \<and> outcome \<lparr>stdin = [''42'', ''3.14'', ''True'', ''abc'', ''2.5''], stdout = [],
                          int_max_str_digits = 4300\<rparr> = Inl ValueError
   \<and> printed \<lparr>stdin = [''42'', ''3.14'', ''True'', ''abc'', ''2.5''], stdout = [],
                          int_max_str_digits = 4300\<rparr> = []
   \<and> malformed_numeric 4300 [''42'', ''3.14'', ''True'', ''7'', ''abc'']
   \<and> outcome \<lparr>stdin = [''42'', ''3.14'', ''True'', ''7'', ''abc''], stdout = [],
                          int_max_str_digits = 4300\<rparr> = Inl ValueError
   \<and> printed \<lparr>stdin = [''42'', ''3.14'', ''True'', ''7'', ''abc''], stdout = [],
                          int_max_str_digits = 4300\<rparr> = []"
proof -
  have m: "malformed_numeric 4300 [''abc'', ''3.14'', ''True'', ''7'', ''2.5'']"
    "malformed_numeric 4300 [''42'', ''3.14'', ''True'', ''abc'', ''2.5'']"
    "malformed_numeric 4300 [''42'', ''3.14'', ''True'', ''7'', ''abc'']"
    by (simp_all add: malformed_numeric_def strip_abc int_of_str_abc float_of_str_abc)
  show ?thesis
    using m
      malformed_is_fatal [of "\<lparr>stdin = [''abc'', ''3.14'', ''True'', ''7'', ''2.5''], stdout = [],
                                      int_max_str_digits = 4300\<rparr>"]
      malformed_is_fatal [of "\<lparr>stdin = [''42'', ''3.14'', ''True'', ''abc'', ''2.5''], stdout = [],
                                      int_max_str_digits = 4300\<rparr>"]
      malformed_is_fatal [of "\<lparr>stdin = [''42'', ''3.14'', ''True'', ''7'', ''abc''], stdout = [],
                                      int_max_str_digits = 4300\<rparr>"]
    by (simp add: printed_def outcome_def solve_five int_of_str_abc float_of_str_abc
          int_of_str_7 float_of_str_2_5 strip_abc conversions_def string_to_int_def fmt_def)
qed

section \<open>Reading the input\<close>

lemma strip_with_idem: "strip_with P (strip_with P s) = strip_with P s"
proof -
  define u where "u = dropWhile P s"
  define t where "t = rev (dropWhile P (rev u))"
  have u: "u = t @ rev (takeWhile P (rev u))"
  proof -
    have "rev (takeWhile P (rev u) @ dropWhile P (rev u)) = rev (rev u)"
      by (simp only: takeWhile_dropWhile_id)
    then have "rev (dropWhile P (rev u)) @ rev (takeWhile P (rev u)) = u"
      by (simp only: rev_append rev_rev_ident)
    then show ?thesis by (simp only: t_def)
  qed
  have front: "dropWhile P t = t"
  proof (cases t)
    case Nil
    then show ?thesis by simp
  next
    case (Cons a t')
    with u obtain z where "u = a # z" by simp
    then have "u \<noteq> []" and "hd u = a" by simp_all
    then have "\<not> P a" using hd_dropWhile [of P s] by (simp add: u_def)
    with Cons show ?thesis by simp
  qed
  have rear: "dropWhile P (rev t) = rev t" by (simp add: t_def)
  show ?thesis
    by (simp add: strip_with_def u_def [symmetric] t_def [symmetric] front rear)
qed

lemma strip_idem: "strip (strip s) = strip s"
  by (simp add: strip_def strip_with_idem)

lemma stdin_after_solve: "\<exists>k\<le>5. stdin (snd (solve w)) = drop k (stdin w)"
proof (cases "5 \<le> length (stdin w)")
  case True
  then obtain l1 l2 l3 l4 l5 rest where s: "stdin w = l1 # l2 # l3 # l4 # l5 # rest"
    by (rule long_list_cases)
  show ?thesis
  proof (cases "int_of_str (int_max_str_digits w) l4")
    case (Inl e)
    with s have "stdin (snd (solve w)) = drop 4 (stdin w)" by (simp add: solve_five)
    then show ?thesis by (intro exI [of _ 4]) simp
  next
    case (Inr n)
    with s have "stdin (snd (solve w)) = drop 5 (stdin w)"
      by (simp add: solve_five print_all_eq split: sum.splits)
    then show ?thesis by (intro exI [of _ 5]) simp
  qed
next
  case False
  then have "length (stdin w) < 5" by simp
  then have "stdin (snd (solve w)) = drop (length (stdin w)) (stdin w)"
  proof (cases rule: short_list_cases)
    case (5 a b c d)
    then show ?thesis by (simp add: solve_four split: sum.splits)
  qed (simp_all add: solve_short)
  with False show ?thesis by (intro exI [of _ "length (stdin w)"]) simp
qed

lemma success_reads_five:
  assumes "outcome w = Inr ()"
  shows "5 \<le> length (stdin w) \<and> stdin (snd (solve w)) = drop 5 (stdin w)"
proof -
  have len: "5 \<le> length (stdin w)"
  proof (rule ccontr)
    assume "\<not> 5 \<le> length (stdin w)"
    then have "\<exists>e. outcome w = Inl e" by (simp add: printed_short)
    with assms show False by simp
  qed
  then obtain l1 l2 l3 l4 l5 rest where s: "stdin w = l1 # l2 # l3 # l4 # l5 # rest"
    by (rule long_list_cases)
  with assms have "stdin (snd (solve w)) = drop 5 (stdin w)"
    by (auto simp add: outcome_def solve_five print_all_eq split: sum.splits)
  with len show ?thesis by simp
qed

lemma solve_stripped:
  assumes "stdin w = l1 # l2 # l3 # rest"
    and "stdin w' = strip l1 # strip l2 # strip l3 # rest"
    and "int_max_str_digits w' = int_max_str_digits w"
  shows "outcome w' = outcome w" and "printed w' = printed w"
proof -
  have "outcome w' = outcome w \<and> printed w' = printed w"
  proof (cases rest)
    case Nil
    with assms show ?thesis by (simp add: outcome_def printed_def solve_short)
  next
    case r1: (Cons l4 rest1)
    show ?thesis
    proof (cases rest1)
      case Nil
      with r1 assms show ?thesis
        by (simp add: outcome_def printed_def solve_four split: sum.splits)
    next
      case (Cons l5 rest2)
      with r1 assms show ?thesis
        by (simp add: outcome_def printed_def solve_five print_all_eq strip_idem
              split: sum.splits)
    qed
  qed
  then show "outcome w' = outcome w" and "printed w' = printed w" by simp_all
qed

lemma strip_padded_42: "strip '' 42 '' = ''42''"
  by (simp add: text_eval)

text \<open>
  C7. A run takes its lines from the front of standard input, at most five of them, and
  exactly five when it ends normally. The first three lines are used only stripped of
  surrounding whitespace: the same input with these lines already stripped gives, under
  the same limit on int literals, the same outcome and the same output, so the first line \<^verbatim>\<open> 42 \<close> prints
  \<^verbatim>\<open>String to int: 42\<close>. The fourth line is parsed as an int as soon as it is read, before
  the fifth is read, and the fifth as a float as soon as it is read: a failure of either
  ends the run with nothing printed, whatever the first three lines are.
\<close>

theorem input_reader:
  "(\<exists>k\<le>5. stdin (snd (solve w)) = drop k (stdin w))
   \<and> (outcome w = Inr () \<longrightarrow>
        5 \<le> length (stdin w) \<and> stdin (snd (solve w)) = drop 5 (stdin w))
   \<and> (stdin w = l1 # l2 # l3 # rest \<and> stdin w' = strip l1 # strip l2 # strip l3 # rest
        \<and> int_max_str_digits w' = int_max_str_digits w \<longrightarrow>
        outcome w' = outcome w \<and> printed w' = printed w)
   \<and> (stdin w = l1 # l2 # l3 # l4 # l5 # rest' \<and> int_of_str (int_max_str_digits w) l4 = Inl e \<longrightarrow>
        solve w = (Inl e, w\<lparr>stdin := l5 # rest'\<rparr>))
   \<and> (stdin w = l1 # l2 # l3 # l4 # l5 # rest' \<and> int_of_str (int_max_str_digits w) l4 = Inr n
        \<and> float_of_str l5 = Inl e \<longrightarrow>
        solve w = (Inl e, w\<lparr>stdin := rest'\<rparr>))"
proof (intro conjI impI)
  show "\<exists>k\<le>5. stdin (snd (solve w)) = drop k (stdin w)" by (rule stdin_after_solve)
next
  assume "outcome w = Inr ()"
  then have "5 \<le> length (stdin w) \<and> stdin (snd (solve w)) = drop 5 (stdin w)"
    by (rule success_reads_five)
  then show "5 \<le> length (stdin w)" and "stdin (snd (solve w)) = drop 5 (stdin w)"
    by simp_all
next
  assume a: "stdin w = l1 # l2 # l3 # rest \<and> stdin w' = strip l1 # strip l2 # strip l3 # rest
        \<and> int_max_str_digits w' = int_max_str_digits w"
  then show "outcome w' = outcome w" using solve_stripped(1) [of w l1 l2 l3 rest w'] by simp
  from a show "printed w' = printed w" using solve_stripped(2) [of w l1 l2 l3 rest w'] by simp
next
  assume "stdin w = l1 # l2 # l3 # l4 # l5 # rest' \<and> int_of_str (int_max_str_digits w) l4 = Inl e"
  then show "solve w = (Inl e, w\<lparr>stdin := l5 # rest'\<rparr>)" by (simp add: solve_five)
next
  assume "stdin w = l1 # l2 # l3 # l4 # l5 # rest' \<and> int_of_str (int_max_str_digits w) l4 = Inr n
        \<and> float_of_str l5 = Inl e"
  then show "solve w = (Inl e, w\<lparr>stdin := rest'\<rparr>)" by (simp add: solve_five)
qed


theorem input_reader_witness:
  "outcome \<lparr>stdin = [''42'', ''3.14'', ''True'', ''7'', ''2.5''], stdout = [],
                   int_max_str_digits = 4300\<rparr> = Inr ()
   \<and> stdin (snd (solve \<lparr>stdin = [''42'', ''3.14'', ''True'', ''7'', ''2.5''], stdout = [],
                                    int_max_str_digits = 4300\<rparr>)) = []
   \<and> [strip '' 42 '', strip ''3.14'', strip ''True''] = [''42'', ''3.14'', ''True'']
   \<and> outcome \<lparr>stdin = ['' 42 '', ''3.14'', ''True'', ''7'', ''2.5''], stdout = [],
                          int_max_str_digits = 4300\<rparr> = Inr ()
   \<and> printed \<lparr>stdin = ['' 42 '', ''3.14'', ''True'', ''7'', ''2.5''], stdout = [],
                          int_max_str_digits = 4300\<rparr> =
       [''String to int: 42'', ''String to float: 3.14'', ''String to bool: true'',
        ''Int to string: 7'', ''Int to float: 7.0'', ''Int to bool: true'',
        ''Float to string: 2.5'', ''Float to int: 2'', ''Float to bool: true'']
   \<and> int_of_str 4300 ''abc'' = Inl ValueError
   \<and> solve \<lparr>stdin = [''abc'', ''3.14'', ''True'', ''abc'', ''2.5''], stdout = [],
                        int_max_str_digits = 4300\<rparr> =
       (Inl ValueError, \<lparr>stdin = [''2.5''], stdout = [], int_max_str_digits = 4300\<rparr>)
   \<and> int_of_str 4300 ''7'' = Inr 7 \<and> float_of_str ''abc'' = Inl ValueError
   \<and> solve \<lparr>stdin = [''abc'', ''3.14'', ''True'', ''7'', ''abc''], stdout = [],
                        int_max_str_digits = 4300\<rparr> =
       (Inl ValueError, \<lparr>stdin = [], stdout = [], int_max_str_digits = 4300\<rparr>)"
proof -
  let ?ex = "\<lparr>stdin = [''42'', ''3.14'', ''True'', ''7'', ''2.5''], stdout = [],
                     int_max_str_digits = 4300\<rparr>"
  let ?pad = "\<lparr>stdin = ['' 42 '', ''3.14'', ''True'', ''7'', ''2.5''], stdout = [],
                      int_max_str_digits = 4300\<rparr>"
  let ?b4 = "\<lparr>stdin = [''abc'', ''3.14'', ''True'', ''abc'', ''2.5''], stdout = [],
                     int_max_str_digits = 4300\<rparr>"
  let ?b5 = "\<lparr>stdin = [''abc'', ''3.14'', ''True'', ''7'', ''abc''], stdout = [],
                     int_max_str_digits = 4300\<rparr>"
  have ex: "outcome ?ex = Inr ()" "printed ?ex =
       [''String to int: 42'', ''String to float: 3.14'', ''String to bool: true'',
        ''Int to string: 7'', ''Int to float: 7.0'', ''Int to bool: true'',
        ''Float to string: 2.5'', ''Float to int: 2'', ''Float to bool: true'']"
    by (simp_all add: outcome_def printed_def solve_example)
  show ?thesis
    using input_reader [where w = ?pad and w' = ?ex and ?l1.0 = "'' 42 ''" and ?l2.0 = "''3.14''"
        and ?l3.0 = "''True''" and rest = "[''7'', ''2.5'']"]
      input_reader [where w = ?ex and w' = ?ex]
      input_reader [where w = ?b4 and ?l1.0 = "''abc''" and ?l2.0 = "''3.14''"
        and ?l3.0 = "''True''" and ?l4.0 = "''abc''" and ?l5.0 = "''2.5''" and rest' = "[]"
        and e = ValueError and w' = ?ex]
      input_reader [where w = ?b5 and ?l1.0 = "''abc''" and ?l2.0 = "''3.14''"
        and ?l3.0 = "''True''" and ?l4.0 = "''7''" and ?l5.0 = "''abc''" and rest' = "[]"
        and e = ValueError and n = 7 and w' = ?ex]
    by (simp add: ex strip_example strip_padded_42 int_of_str_abc float_of_str_abc int_of_str_7)
qed

section \<open>The decimal text of an integer reads back\<close>

lemma digit_char_cases:
  assumes "d < 10"
  shows "digit_char d \<in> set ''0123456789''" and "digit_value (digit_char d) = d"
proof -
  from assms have "d = 0 \<or> d = 1 \<or> d = 2 \<or> d = 3 \<or> d = 4 \<or> d = 5 \<or> d = 6
    \<or> d = 7 \<or> d = 8 \<or> d = 9" by arith
  then show "digit_char d \<in> set ''0123456789''"
    by (elim disjE) (simp_all add: digit_char_def char_of_eq_iff)
  show "digit_value (digit_char d) = d"
    using assms by (simp add: digit_char_def digit_value_def)
qed

lemma isdigit_digit_char: "d < 10 \<Longrightarrow> isdigit (digit_char d)"
  unfolding isdigit_def by (rule digit_char_cases(1))

lemma isdigit_plain:
  assumes "isdigit c"
  shows "\<not> num_isspace c" and "c \<noteq> CHR ''-''" and "c \<noteq> CHR ''+''" and "c \<noteq> CHR ''_''"
  using assms by (auto simp: isdigit_def num_isspace_def)

lemma str_of_nat_digits: "str_of_nat n \<noteq> [] \<and> list_all isdigit (str_of_nat n)"
proof (induction n rule: str_of_nat.induct)
  case (1 n)
  show ?case
  proof (cases "n < 10")
    case True
    then show ?thesis by (simp add: str_of_nat.simps [of n] isdigit_digit_char)
  next
    case False
    with "1.IH" show ?thesis by (simp add: str_of_nat.simps [of n] isdigit_digit_char)
  qed
qed

lemma digits_value_snoc: "digits_value (ds @ [c]) = 10 * digits_value ds + digit_value c"
  by (simp add: digits_value_def)

lemma digits_value_str_of_nat: "digits_value (str_of_nat n) = n"
proof (induction n rule: str_of_nat.induct)
  case (1 n)
  show ?case
  proof (cases "n < 10")
    case True
    then show ?thesis
      by (simp add: str_of_nat.simps [of n] digits_value_def digit_char_cases(2))
  next
    case False
    with "1.IH" show ?thesis
      by (simp add: str_of_nat.simps [of n] digits_value_snoc digit_char_cases(2))
  qed
qed

lemma del_underscores_digits:
  "list_all isdigit ds \<Longrightarrow> prev \<noteq> CHR ''_'' \<Longrightarrow> del_underscores prev ds = Some ds"
proof (induction ds arbitrary: prev)
  case Nil
  then show ?case by simp
next
  case (Cons c cs)
  then have c: "c \<noteq> CHR ''_''" using isdigit_plain(4) by simp
  with Cons show ?case by simp
qed

lemma strip_with_unchanged:
  assumes "s \<noteq> []" and "\<not> P (hd s)" and "\<not> P (last s)"
  shows "strip_with P s = s"
proof -
  from assms(1,2) have a: "dropWhile P s = s" by (cases s) simp_all
  from assms(1,3) have "dropWhile P (rev s) = rev s"
    by (cases "rev s") (simp_all add: hd_rev [symmetric])
  with a show ?thesis by (simp add: strip_with_def)
qed

lemma digit_value_less: "isdigit c \<Longrightarrow> digit_value c < 10"
  by (auto simp add: isdigit_def digit_value_def)

lemma digits_value_less: "list_all isdigit ds \<Longrightarrow> digits_value ds < 10 ^ length ds"
proof (induction ds rule: rev_induct)
  case Nil
  then show ?case by (simp add: digits_value_def)
next
  case (snoc c cs)
  then have "digits_value cs < 10 ^ length cs" and "digit_value c < 10"
    by (simp_all add: digit_value_less)
  then show ?case by (simp add: digits_value_snoc)
qed

lemma length_str_of_nat: "n < 10 ^ k \<Longrightarrow> 0 < k \<Longrightarrow> length (str_of_nat n) \<le> k"
proof (induction n arbitrary: k rule: str_of_nat.induct)
  case (1 n)
  show ?case
  proof (cases "n < 10")
    case True
    with "1.prems" show ?thesis by (simp add: str_of_nat.simps [of n])
  next
    case False
    obtain j where k: "k = Suc j" using "1.prems"(2) by (cases k) simp_all
    with "1.prems"(1) have d: "n div 10 < 10 ^ j" by (simp add: less_mult_imp_div_less)
    from False d have "0 < j" by (cases j) simp_all
    with False d have "length (str_of_nat (n div 10)) \<le> j" by (rule "1.IH")
    with False k show ?thesis by (simp add: str_of_nat.simps [of n])
  qed
qed

lemma exceeds_limit_mono: "\<not> exceeds_limit dmax k \<Longrightarrow> j \<le> k \<Longrightarrow> \<not> exceeds_limit dmax j"
  by (auto simp add: exceeds_limit_def)

lemma int_of_str_digits:
  assumes "int_of_str dmax s = Inr n"
  obtains ds where "ds \<noteq> []" and "list_all isdigit ds" and "\<not> exceeds_limit dmax (length ds)"
    and "nat \<bar>n\<bar> = digits_value ds"
  using assms
  by (auto simp add: int_of_str_def Let_def split: prod.splits option.splits if_splits)

lemma int_of_str_within_limit:
  assumes "int_of_str dmax s = Inr n"
  shows "\<not> exceeds_limit dmax (length (str_of_nat (nat \<bar>n\<bar>)))"
proof -
  from assms obtain ds where ne: "ds \<noteq> []" and dig: "list_all isdigit ds"
    and within: "\<not> exceeds_limit dmax (length ds)" and val: "nat \<bar>n\<bar> = digits_value ds"
    by (rule int_of_str_digits)
  from dig have "digits_value ds < 10 ^ length ds" by (rule digits_value_less)
  with ne val have "length (str_of_nat (nat \<bar>n\<bar>)) \<le> length ds"
    by (intro length_str_of_nat) simp_all
  with within show ?thesis by (rule exceeds_limit_mono)
qed

lemma int_of_str_str_of_int:
  assumes "\<not> exceeds_limit dmax (length (str_of_nat (nat \<bar>i\<bar>)))"
  shows "int_of_str dmax (str_of_int i) = Inr i"
proof -
  define ds where "ds = str_of_nat (nat \<bar>i\<bar>)"
  have ne: "ds \<noteq> []" and dig: "list_all isdigit ds"
    using str_of_nat_digits [of "nat \<bar>i\<bar>"] by (simp_all add: ds_def)
  have val: "digits_value ds = nat \<bar>i\<bar>" by (simp add: ds_def digits_value_str_of_nat)
  from assms have within: "\<not> exceeds_limit dmax (length ds)" by (simp add: ds_def)
  from ne dig have h: "isdigit (hd ds)" and l: "isdigit (last ds)"
    by (simp_all add: list_all_iff)
  have del: "del_underscores (CHR 0x00) ds = Some ds"
    using dig by (rule del_underscores_digits) simp
  show ?thesis
  proof (cases "i < 0")
    case True
    then have s: "str_of_int i = CHR ''-'' # ds" by (simp add: str_of_int_def ds_def)
    have "strip_with num_isspace (CHR ''-'' # ds) = CHR ''-'' # ds"
      using ne l isdigit_plain(1) by (intro strip_with_unchanged) (simp_all add: num_isspace_def)
    then show ?thesis
      using True ne dig val del within by (simp add: int_of_str_def s split_sign_def)
  next
    case False
    then have s: "str_of_int i = ds" by (simp add: str_of_int_def ds_def)
    have st: "strip_with num_isspace ds = ds"
      using ne h l isdigit_plain(1) by (intro strip_with_unchanged) simp_all
    obtain c cs where c: "ds = c # cs" using ne by (cases ds) auto
    with h have "c \<noteq> CHR ''-''" "c \<noteq> CHR ''+''" using isdigit_plain(2,3) by simp_all
    with c have sp: "split_sign ds = (False, ds)" by (simp add: split_sign_def)
    show ?thesis
      using False ne dig val del within by (simp add: int_of_str_def s st sp)
  qed
qed

text \<open>The decimal text of an int that was read from a literal is within the limit.\<close>

lemma int_of_str_reads_back:
  assumes "int_of_str dmax s = Inr n"
  shows "int_of_str dmax (str_of_int n) = Inr n"
  using assms by (intro int_of_str_str_of_int int_of_str_within_limit)

section \<open>The nine output lines\<close>

lemma float_of_str_inf: "float_of_str ''inf'' = Inr (Infinite False)"
  by (simp add: text_eval float_eval)

lemma str_of_float_inf: "str_of_float (Infinite False) = ''inf''"
  by (simp add: str_of_float_def)

lemma solve_inf:
  "solve \<lparr>stdin = [''42'', ''3.14'', ''True'', ''7'', ''inf''], stdout = [],
                 int_max_str_digits = 4300\<rparr> =
     (Inl OverflowError,
      \<lparr>stdin = [],
       stdout = [''String to int: 42'', ''String to float: 3.14'', ''String to bool: true'',
                 ''Int to string: 7'', ''Int to float: 7.0'', ''Int to bool: true'',
                 ''Float to string: inf''], int_max_str_digits = 4300\<rparr>)"
proof -
  have "lower ''True'' = ''true''" by (simp add: text_eval)
  then have "conversions 4300 ''42'' ''3.14'' ''True'' 7 (Infinite False) =
     [Inr ''String to int: 42'', Inr ''String to float: 3.14'', Inr ''String to bool: true'',
      Inr ''Int to string: 7'', Inr ''Int to float: 7.0'', Inr ''Int to bool: true'',
      Inr ''Float to string: inf'', Inl OverflowError, Inr ''Float to bool: true'']"
    by (simp add: conversions_def fmt_eval int_of_str_42 float_of_str_3_14 float_of_int_7
          str_of_float_3_14 str_of_float_7 str_of_int_small lower_bool bool_of_int_def
          bool_of_float_def int_of_float_def str_of_float_inf)
  then show ?thesis
    by (simp add: solve_five [where ?l1.0 = "''42''" and ?l2.0 = "''3.14''" and ?l3.0 = "''True''"
                 and ?l4.0 = "''7''" and ?l5.0 = "''inf''" and rest = "[]"]
          int_of_str_7 float_of_str_inf strip_example)
qed

text \<open>
  C8, as stated, fails: on the input lines \<^verbatim>\<open>42\<close>, \<^verbatim>\<open>3.14\<close>, \<^verbatim>\<open>True\<close>, \<^verbatim>\<open>7\<close>, \<^verbatim>\<open>inf\<close> all four
  parses succeed (\<^verbatim>\<open>float("inf")\<close> is the positive infinity), yet the run prints seven
  lines and ends in \<^verbatim>\<open>OverflowError\<close>, raised by \<^verbatim>\<open>int\<close> of the infinity.
\<close>

theorem nine_lines_counterexample:
  "int_of_str 4300 (strip ''42'') = Inr 42
   \<and> float_of_str (strip ''3.14'') = Inr (Finite False 7070651414971679 (- 51))
   \<and> int_of_str 4300 ''7'' = Inr 7
   \<and> float_of_str ''inf'' = Inr (Infinite False)
   \<and> outcome \<lparr>stdin = [''42'', ''3.14'', ''True'', ''7'', ''inf''], stdout = [],
                          int_max_str_digits = 4300\<rparr>
       = Inl OverflowError
   \<and> length (printed \<lparr>stdin = [''42'', ''3.14'', ''True'', ''7'', ''inf''], stdout = [],
                                  int_max_str_digits = 4300\<rparr>) = 7"
  by (simp add: strip_example int_of_str_42 float_of_str_3_14 int_of_str_7 float_of_str_inf
        outcome_def printed_def solve_inf)

text \<open>
  C8, amended. For every input whose first five lines parse (the first and fourth as
  ints, the second and fifth as floats), whose integer converts to a float without
  overflow and whose float is finite, the run ends normally and prints exactly nine
  lines, in the order of the conversion table, each a fixed label followed by the value:
  the ints in their decimal text, which reads back as the same integer, the floats in
  their shortest text, the booleans as \<^verbatim>\<open>true\<close> or \<^verbatim>\<open>false\<close>.
\<close>

theorem nine_lines:
  assumes "stdin w = l1 # l2 # l3 # l4 # l5 # rest"
    and "int_of_str (int_max_str_digits w) (strip l1) = Inr a" and "float_of_str (strip l2) = Inr b"
    and "int_of_str (int_max_str_digits w) l4 = Inr n" and "float_of_str l5 = Inr x"
    and "float_of_int n = Inr y" and "float_value x = Some v"
  shows "solve w =
     (Inr (),
      w\<lparr>stdin := rest,
        stdout := stdout w @
          [''String to int: '' @ str_of_int a,
           ''String to float: '' @ str_of_float b,
           ''String to bool: '' @ (if lower (strip l3) = ''true'' then ''true'' else ''false''),
           ''Int to string: '' @ str_of_int n,
           ''Int to float: '' @ str_of_float y,
           ''Int to bool: '' @ (if n = 0 then ''false'' else ''true''),
           ''Float to string: '' @ str_of_float x,
           ''Float to int: '' @ str_of_int (truncate_toward_zero v),
           ''Float to bool: '' @ (if is_zero x then ''false'' else ''true'')]\<rparr>)
     \<and> length (printed w) = 9
     \<and> int_of_str (int_max_str_digits w) (str_of_int n) = Inr n"
proof -
  have z: "int_of_float x = Inr (truncate_toward_zero v)"
    using assms(7) by (rule int_of_float_truncates)
  note s = solve_success [OF assms(1-6) z]
  then have "length (printed w) = 9" by (simp add: printed_def)
  with s show ?thesis by (simp add: int_of_str_reads_back [OF assms(4)])
qed

theorem nine_lines_witness:
  "int_of_str 4300 (strip ''42'') = Inr 42
   \<and> float_of_str (strip ''3.14'') = Inr (Finite False 7070651414971679 (- 51))
   \<and> int_of_str 4300 ''7'' = Inr 7
   \<and> float_of_str ''2.5'' = Inr (Finite False 5629499534213120 (- 51))
   \<and> float_of_int 7 = Inr (Finite False 7881299347898368 (- 50))
   \<and> float_value (Finite False 5629499534213120 (- 51)) = Some (5 / 2)
   \<and> solve \<lparr>stdin = [''42'', ''3.14'', ''True'', ''7'', ''2.5''], stdout = [],
                        int_max_str_digits = 4300\<rparr> =
       (Inr (),
        \<lparr>stdin = [],
         stdout = [''String to int: 42'', ''String to float: 3.14'', ''String to bool: true'',
                   ''Int to string: 7'', ''Int to float: 7.0'', ''Int to bool: true'',
                   ''Float to string: 2.5'', ''Float to int: 2'', ''Float to bool: true''],
         int_max_str_digits = 4300\<rparr>)
   \<and> length (printed \<lparr>stdin = [''42'', ''3.14'', ''True'', ''7'', ''2.5''], stdout = [],
                                  int_max_str_digits = 4300\<rparr>) = 9
   \<and> int_of_str 4300 (str_of_int 7) = Inr 7"
proof -
  let ?w = "\<lparr>stdin = [''42'', ''3.14'', ''True'', ''7'', ''2.5''], stdout = [],
                    int_max_str_digits = 4300\<rparr>"
  have s: "stdin ?w = ''42'' # ''3.14'' # ''True'' # ''7'' # ''2.5'' # []" by simp
  have a: "int_of_str (int_max_str_digits ?w) (strip ''42'') = Inr 42"
    by (simp add: strip_example int_of_str_42)
  have b: "float_of_str (strip ''3.14'') = Inr (Finite False 7070651414971679 (- 51))"
    by (simp add: strip_example float_of_str_3_14)
  have v: "float_value (Finite False 5629499534213120 (- 51)) = Some (5 / 2)"
    by (simp add: power_int_def field_simps)
  note nl = nine_lines [OF s a b int_of_str_7 float_of_str_2_5 float_of_int_7 v]
  from nl have len: "length (printed ?w) = 9" by blast
  from nl have "int_of_str (int_max_str_digits ?w) (str_of_int 7) = Inr 7" by blast
  then have rt: "int_of_str 4300 (str_of_int 7) = Inr 7" by (simp only: world.select_convs)
  from a have a': "int_of_str 4300 (strip ''42'') = Inr 42" by (simp only: world.select_convs)
  show ?thesis
    by (simp only: a' b v int_of_str_7 float_of_str_2_5 float_of_int_7 solve_example len rt
          simp_thms)
qed

section \<open>Partial output\<close>

lemma lines_of_first_error:
  assumes "k < length rs" and "rs ! k = Inl e" and "\<forall>i<k. \<not> isl (rs ! i)"
  shows "lines_of rs = map projr (take k rs)" and "result_of rs = Inl e"
proof -
  let ?P = "\<lambda>r :: py_error + string. \<not> isl r"
  have tw: "takeWhile ?P rs = take k rs"
    using assms by (intro takeWhile_eq_take_P_nth) simp_all
  then show "lines_of rs = map projr (take k rs)" by (simp add: lines_of_def)
  have "dropWhile ?P rs = drop (length (takeWhile ?P rs)) rs" by (rule dropWhile_eq_drop)
  also have "\<dots> = drop k rs" using tw assms(1) by simp
  also have "\<dots> = rs ! k # drop (Suc k) rs" using assms(1) by (rule Cons_nth_drop_Suc [symmetric])
  finally show "result_of rs = Inl e" using assms(2) by (simp add: result_of_def)
qed

text \<open>
  C10. The first three lines are parsed only inside the print statements, so output is
  not atomic. With five lines of which the fourth and fifth parse, if the \<open>k\<close>-th of the
  nine conversions is the first to raise, the run ends in that exception with exactly
  the \<open>k - 1\<close> lines of the conversions before it written (\<open>k\<close> counted from 1, the index
  below from 0). In particular, a malformed second line with a well-formed first leaves
  the \<^verbatim>\<open>String to int\<close> line on standard output before the failure.
\<close>

theorem partial_output:
  assumes "stdin w = l1 # l2 # l3 # l4 # l5 # rest"
    and "int_of_str (int_max_str_digits w) l4 = Inr n" and "float_of_str l5 = Inr x"
  shows "(k < 9 \<and> conversions (int_max_str_digits w) (strip l1) (strip l2) (strip l3) n x ! k = Inl e
          \<and> (\<forall>i<k. \<not> isl (conversions (int_max_str_digits w) (strip l1) (strip l2) (strip l3) n x ! i)) \<longrightarrow>
            solve w =
              (Inl e,
               w\<lparr>stdin := rest,
                 stdout := stdout w @
                   map projr (take k (conversions (int_max_str_digits w) (strip l1) (strip l2) (strip l3) n x))\<rparr>))
         \<and> (int_of_str (int_max_str_digits w) (strip l1) = Inr a \<and> float_of_str (strip l2) = Inl e \<longrightarrow>
              solve w =
                (Inl e,
                 w\<lparr>stdin := rest,
                   stdout := stdout w @ [''String to int: '' @ str_of_int a]\<rparr>))"
proof (intro conjI impI)
  let ?cs = "conversions (int_max_str_digits w) (strip l1) (strip l2) (strip l3) n x"
  assume a: "k < 9 \<and> ?cs ! k = Inl e \<and> (\<forall>i<k. \<not> isl (?cs ! i))"
  then have "k < length ?cs" by (simp add: conversions_def)
  with a have "lines_of ?cs = map projr (take k ?cs)" and "result_of ?cs = Inl e"
    using lines_of_first_error [of k ?cs e] by blast+
  then show "solve w = (Inl e, w\<lparr>stdin := rest, stdout := stdout w @ map projr (take k ?cs)\<rparr>)"
    using solve_parsed [OF assms] by simp
next
  assume "int_of_str (int_max_str_digits w) (strip l1) = Inr a \<and> float_of_str (strip l2) = Inl e"
  then show "solve w =
      (Inl e, w\<lparr>stdin := rest, stdout := stdout w @ [''String to int: '' @ str_of_int a]\<rparr>)"
    using malformed_second [OF assms] by simp
qed

theorem partial_output_witness:
  "int_of_str 4300 ''7'' = Inr 7 \<and> float_of_str ''2.5'' = Inr (Finite False 5629499534213120 (- 51))
   \<and> int_of_str 4300 (strip ''42'') = Inr 42 \<and> float_of_str (strip ''abc'') = Inl ValueError
   \<and> solve \<lparr>stdin = [''42'', ''abc'', ''True'', ''7'', ''2.5''], stdout = [],
                        int_max_str_digits = 4300\<rparr> =
       (Inl ValueError, \<lparr>stdin = [], stdout = [''String to int: 42''],
                                int_max_str_digits = 4300\<rparr>)
   \<and> float_of_str ''inf'' = Inr (Infinite False)
   \<and> conversions 4300 (strip ''42'') (strip ''3.14'') (strip ''True'') 7 (Infinite False) ! 7
       = Inl OverflowError
   \<and> take 7 (conversions 4300 (strip ''42'') (strip ''3.14'') (strip ''True'') 7 (Infinite False))
       = [Inr ''String to int: 42'', Inr ''String to float: 3.14'', Inr ''String to bool: true'',
          Inr ''Int to string: 7'', Inr ''Int to float: 7.0'', Inr ''Int to bool: true'',
          Inr ''Float to string: inf'']
   \<and> solve \<lparr>stdin = [''42'', ''3.14'', ''True'', ''7'', ''inf''], stdout = [],
                        int_max_str_digits = 4300\<rparr> =
       (Inl OverflowError,
        \<lparr>stdin = [],
         stdout = [''String to int: 42'', ''String to float: 3.14'', ''String to bool: true'',
                   ''Int to string: 7'', ''Int to float: 7.0'', ''Int to bool: true'',
                   ''Float to string: inf''], int_max_str_digits = 4300\<rparr>)"
proof -
  have s1: "stdin \<lparr>stdin = [''42'', ''abc'', ''True'', ''7'', ''2.5''], stdout = [],
                          int_max_str_digits = 4300\<rparr>
             = ''42'' # ''abc'' # ''True'' # ''7'' # ''2.5'' # []" by simp
  have s2: "stdin \<lparr>stdin = [''42'', ''3.14'', ''True'', ''7'', ''inf''], stdout = [],
                          int_max_str_digits = 4300\<rparr>
             = ''42'' # ''3.14'' # ''True'' # ''7'' # ''inf'' # []" by simp
  have a: "int_of_str 4300 (strip ''42'') = Inr 42" by (simp add: strip_example int_of_str_42)
  have b: "float_of_str (strip ''abc'') = Inl ValueError" by (simp add: strip_abc float_of_str_abc)
  have "lower ''True'' = ''true''" by (simp add: text_eval)
  then have cs: "conversions 4300 (strip ''42'') (strip ''3.14'') (strip ''True'') 7 (Infinite False) =
     [Inr ''String to int: 42'', Inr ''String to float: 3.14'', Inr ''String to bool: true'',
      Inr ''Int to string: 7'', Inr ''Int to float: 7.0'', Inr ''Int to bool: true'',
      Inr ''Float to string: inf'', Inl OverflowError, Inr ''Float to bool: true'']"
    by (simp add: strip_example conversions_def fmt_eval int_of_str_42 float_of_str_3_14
          float_of_int_7 str_of_float_3_14 str_of_float_7 str_of_int_small lower_bool
          bool_of_int_def bool_of_float_def int_of_float_def str_of_float_inf)
  have e7: "conversions 4300 (strip ''42'') (strip ''3.14'') (strip ''True'') 7 (Infinite False) ! 7
       = Inl OverflowError" by (simp add: cs)
  have before: "\<forall>i<7. \<not> isl (conversions 4300 (strip ''42'') (strip ''3.14'') (strip ''True'') 7
                        (Infinite False) ! i)"
    unfolding cs by (simp add: nth_Cons' less_Suc_eq numeral_eq_Suc all_conj_distrib)
  have first: "solve \<lparr>stdin = [''42'', ''abc'', ''True'', ''7'', ''2.5''], stdout = [],
                             int_max_str_digits = 4300\<rparr> =
       (Inl ValueError, \<lparr>stdin = [], stdout = [''String to int: 42''],
                                int_max_str_digits = 4300\<rparr>)"
    using partial_output [OF s1 int_of_str_7 float_of_str_2_5, of 0 ValueError 42] a b
    by (simp add: str_of_int_small)
  have second: "solve \<lparr>stdin = [''42'', ''3.14'', ''True'', ''7'', ''inf''], stdout = [],
                              int_max_str_digits = 4300\<rparr> =
       (Inl OverflowError,
        \<lparr>stdin = [],
         stdout = [''String to int: 42'', ''String to float: 3.14'', ''String to bool: true'',
                   ''Int to string: 7'', ''Int to float: 7.0'', ''Int to bool: true'',
                   ''Float to string: inf''], int_max_str_digits = 4300\<rparr>)"
    using partial_output [OF s2 int_of_str_7 float_of_str_inf, of 7 OverflowError 0] e7 before
    by (simp add: cs)
  have t7: "take 7 (conversions 4300 (strip ''42'') (strip ''3.14'') (strip ''True'') 7 (Infinite False))
       = [Inr ''String to int: 42'', Inr ''String to float: 3.14'', Inr ''String to bool: true'',
          Inr ''Int to string: 7'', Inr ''Int to float: 7.0'', Inr ''Int to bool: true'',
          Inr ''Float to string: inf'']"
    by (simp add: cs)
  show ?thesis
    using first second e7 t7 a b
    by (simp only: int_of_str_7 float_of_str_2_5 float_of_str_inf simp_thms)
qed

section \<open>Determinism\<close>








end
